theory Spec2Isabelle
  imports Complex_Main
begin

section \<open>The Black-Scholes engine of \<^verbatim>\<open>js/blackscholes.js\<close>\<close>

text \<open>
  The engine is embedded at two levels. At the first a JavaScript Number is a real:
  \<^verbatim>\<open>Math.exp\<close>, \<^verbatim>\<open>Math.log\<close>, \<^verbatim>\<open>Math.sqrt\<close>, \<^verbatim>\<open>Math.abs\<close>, \<^verbatim>\<open>Math.max\<close> and
  \<^verbatim>\<open>Math.PI\<close> are the functions and the constant of analysis, \<^verbatim>\<open>Math.pow(x, 2)\<close> is the
  square, and the decimal literals of the source are the rationals they denote. This is
  the exact-arithmetic reading of the code; the functions keep the names of the source.
  At the second level (prefix \<open>js_\<close>) a Number is an IEEE-754 double: every arithmetic
  result is rounded to the nearest double, ties to even, with gradual underflow, it
  overflows to an infinity, and \<^verbatim>\<open>NaN\<close> propagates. The first level carries the
  statements about the formulas, with a tolerance that leaves room for the rounding where
  they state one; the second carries the statements that depend on the rounding or on the
  range of doubles. Lemma \<open>js_cdf_error\<close> links the two levels for \<^verbatim>\<open>cdf\<close>: on every finite
  double the rounded result is within \<open>103 * 2 ^ (- 53)\<close> of the exact one.
\<close>

subsection \<open>Math helper functions\<close>

definition pdf :: "real \<Rightarrow> real" where
  "pdf x = exp (- 0.5 * x * x) / sqrt (2 * pi)"

text \<open>
  \<^verbatim>\<open>cdf\<close> reassigns its parameter (\<^verbatim>\<open>x = Math.abs(x)\<close>) after reading the sign; the
  argument is \<open>x0\<close> here and the reassigned variable is \<open>x\<close>.
\<close>

definition cdf :: "real \<Rightarrow> real" where
  "cdf x0 =
     (let sign = (if x0 \<ge> 0 then 1 else - 1) :: real;
          x = \<bar>x0\<bar>;
          a1 = 0.254829592 :: real;
          a2 = - 0.284496736 :: real;
          a3 = 1.421413741 :: real;
          a4 = - 1.453152027 :: real;
          a5 = 1.061405429 :: real;
          p = 0.3275911 :: real;
          t = 1.0 / (1.0 + p * x);
          y = 1.0 - (((((a5 * t + a4) * t) + a3) * t + a2) * t + a1) * t * exp (- x * x)
      in 0.5 * (1.0 + sign * y))"

subsection \<open>The calculator class\<close>

text \<open>
  The constructor stores its five arguments and calls \<^verbatim>\<open>calculateD1D2\<close>, which adds the
  fields \<^verbatim>\<open>d1\<close> and \<^verbatim>\<open>d2\<close>. The object before that call is a \<open>params\<close> record, the
  finished object its extension by the two cached fields.
\<close>

record params =
  this_S :: real
  this_K :: real
  this_r :: real
  this_T :: real
  this_sigma :: real

record BlackScholes = params +
  this_d1 :: real
  this_d2 :: real

definition calculateD1D2 :: "params \<Rightarrow> BlackScholes" where
  "calculateD1D2 this =
     (let d1 = (ln (this_S this / this_K this)
                 + (this_r this + 0.5 * (this_sigma this)\<^sup>2) * this_T this)
               / (this_sigma this * sqrt (this_T this));
          d2 = d1 - this_sigma this * sqrt (this_T this)
      in \<lparr>this_S = this_S this, this_K = this_K this, this_r = this_r this,
          this_T = this_T this, this_sigma = this_sigma this,
          this_d1 = d1, this_d2 = d2\<rparr>)"

definition new_BlackScholes :: "real \<Rightarrow> real \<Rightarrow> real \<Rightarrow> real \<Rightarrow> real \<Rightarrow> BlackScholes" where
  "new_BlackScholes S K r T sigma =
     calculateD1D2 \<lparr>this_S = S, this_K = K, this_r = r, this_T = T, this_sigma = sigma\<rparr>"

definition callPrice :: "BlackScholes \<Rightarrow> real" where
  "callPrice this =
     this_S this * cdf (this_d1 this)
     - this_K this * exp (- this_r this * this_T this) * cdf (this_d2 this)"

definition putPrice :: "BlackScholes \<Rightarrow> real" where
  "putPrice this =
     this_K this * exp (- this_r this * this_T this) * cdf (- this_d2 this)
     - this_S this * cdf (- this_d1 this)"

definition deltaCall :: "BlackScholes \<Rightarrow> real" where
  "deltaCall this = cdf (this_d1 this)"

definition deltaPut :: "BlackScholes \<Rightarrow> real" where
  "deltaPut this = cdf (this_d1 this) - 1"

definition gamma :: "BlackScholes \<Rightarrow> real" where
  "gamma this = pdf (this_d1 this) / (this_S this * this_sigma this * sqrt (this_T this))"

definition vega :: "BlackScholes \<Rightarrow> real" where
  "vega this = this_S this * pdf (this_d1 this) * sqrt (this_T this) / 100"

definition thetaCall :: "BlackScholes \<Rightarrow> real" where
  "thetaCall this =
     (let t1 = - (this_S this * pdf (this_d1 this) * this_sigma this) / (2 * sqrt (this_T this));
          t2 = - this_r this * this_K this * exp (- this_r this * this_T this) * cdf (this_d2 this)
      in (t1 + t2) / 365)"

definition rhoCall :: "BlackScholes \<Rightarrow> real" where
  "rhoCall this =
     (this_K this * this_T this * exp (- this_r this * this_T this) * cdf (this_d2 this)) / 100"

subsection \<open>The surface sampler\<close>

text \<open>
  \<^verbatim>\<open>generateSurfaceData\<close> fills three arrays in two nested \<^verbatim>\<open>for\<close> loops. The arrays
  are lists, \<^verbatim>\<open>push\<close> appends at the end, and each loop is a recursive function over its
  counter that threads the arrays it writes. The loop counters are natural numbers. The
  returned object \<^verbatim>\<open>{ x, y, z }\<close> is the record \<open>surface\<close>.
\<close>

record surface =
  surface_x :: "real list"
  surface_y :: "real list"
  surface_z :: "real list list"

function inner_loop ::
  "real \<Rightarrow> real \<Rightarrow> nat \<Rightarrow> real \<Rightarrow> real \<Rightarrow> real \<Rightarrow> real \<Rightarrow> nat \<Rightarrow> nat
     \<Rightarrow> real list \<times> real list \<Rightarrow> real list \<times> real list" where
  "inner_loop minS stepSizeS stepsS K r sigma t_val i j (x_data, row_z) =
     (if j \<le> stepsS then
        let s_val = minS + real j * stepSizeS;
            x_data' = (if i = 0 then x_data @ [s_val] else x_data);
            bs_temp = new_BlackScholes s_val K r t_val sigma;
            row_z' = row_z @ [gamma bs_temp]
        in inner_loop minS stepSizeS stepsS K r sigma t_val i (j + 1) (x_data', row_z')
      else (x_data, row_z))"
  by pat_completeness auto
termination
  by (relation "measure (\<lambda>(minS, stepSizeS, stepsS, K, r, sigma, t_val, i, j, a). stepsS + 1 - j)")
    auto

function outer_loop ::
  "real \<Rightarrow> real \<Rightarrow> nat \<Rightarrow> real \<Rightarrow> nat \<Rightarrow> real \<Rightarrow> real \<Rightarrow> real \<Rightarrow> nat
     \<Rightarrow> real list \<times> real list \<times> real list list \<Rightarrow> real list \<times> real list \<times> real list list" where
  "outer_loop minS stepSizeS stepsS stepSizeT stepsT K r sigma i (x_data, y_data, z_data) =
     (if i \<le> stepsT then
        let t_val = 0.01 + real i * stepSizeT;
            row_z = [];
            y_data' = y_data @ [t_val];
            (x_data', row_z') =
              inner_loop minS stepSizeS stepsS K r sigma t_val i 0 (x_data, row_z);
            z_data' = z_data @ [row_z']
        in outer_loop minS stepSizeS stepsS stepSizeT stepsT K r sigma (i + 1)
             (x_data', y_data', z_data')
      else (x_data, y_data, z_data))"
  by pat_completeness auto
termination
  by (relation "measure (\<lambda>(minS, stepSizeS, stepsS, stepSizeT, stepsT, K, r, sigma, i, a).
        stepsT + 1 - i)") auto

definition generateSurfaceData :: "real \<Rightarrow> real \<Rightarrow> real \<Rightarrow> real \<Rightarrow> real \<Rightarrow> surface" where
  "generateSurfaceData currentS K r currentT sigma =
     (let rangePct = 0.50 :: real;
          minS = currentS * (1 - rangePct);
          maxS = currentS * (1 + rangePct);
          stepsS = 30 :: nat;
          stepSizeS = (maxS - minS) / real stepsS;
          maxT = max (currentT * 1.5) 1.0;
          stepsT = 30 :: nat;
          stepSizeT = maxT / real stepsT;
          (x_data, y_data, z_data) =
            outer_loop minS stepSizeS stepsS stepSizeT stepsT K r sigma 0 ([], [], [])
      in \<lparr>surface_x = x_data, surface_y = y_data, surface_z = z_data\<rparr>)"

declare inner_loop.simps [simp del] outer_loop.simps [simp del]

subsection \<open>Rounding to doubles\<close>

text \<open>
  A double is a real of the form \<open>n * 2 ^ (e - 52)\<close> with an integer \<open>n\<close>. For a real \<open>v\<close>,
  \<open>expo v\<close> is its binary exponent, not below the least exponent \<open>- 1022\<close> of a normal
  double, and \<open>ulp v\<close> is the distance between neighbouring doubles around \<open>v\<close>; below
  \<open>2 ^ (- 1022)\<close> this distance is \<open>2 ^ (- 1074)\<close>, which is gradual underflow. \<open>fl v\<close> is the
  multiple of \<open>ulp v\<close> nearest to \<open>v\<close>, the even one of the two on a tie: rounding to
  nearest, with an exponent that is not bounded above. \<open>fl_down\<close> and \<open>fl_up\<close> are the
  neighbours of \<open>v\<close> on the same grid, and a value is a faithful rounding of \<open>v\<close> when it is
  one of the two.
\<close>

definition expo :: "real \<Rightarrow> int" where
  "expo v = max \<lfloor>log 2 \<bar>v\<bar>\<rfloor> (- 1022)"

definition ulp :: "real \<Rightarrow> real" where
  "ulp v = 2 powi (expo v - 52)"

definition round_even :: "real \<Rightarrow> int" where
  "round_even m =
     (if m - of_int \<lfloor>m\<rfloor> < 1 / 2 then \<lfloor>m\<rfloor>
      else if m - of_int \<lfloor>m\<rfloor> > 1 / 2 then \<lceil>m\<rceil>
      else if even \<lfloor>m\<rfloor> then \<lfloor>m\<rfloor> else \<lceil>m\<rceil>)"

definition fl :: "real \<Rightarrow> real" where
  "fl v = of_int (round_even (v / ulp v)) * ulp v"

definition fl_down :: "real \<Rightarrow> real" where
  "fl_down v = of_int \<lfloor>v / ulp v\<rfloor> * ulp v"

definition fl_up :: "real \<Rightarrow> real" where
  "fl_up v = of_int \<lceil>v / ulp v\<rceil> * ulp v"

definition faithful_val :: "real \<Rightarrow> real \<Rightarrow> bool" where
  "faithful_val v w \<longleftrightarrow> w = fl_down v \<or> w = fl_up v"

subsection \<open>The same functions on doubles\<close>

text \<open>
  A Number is a finite real, one of the two infinities, or \<^verbatim>\<open>NaN\<close>. \<open>to_double\<close> rounds a
  real result and applies the range: a rounded magnitude of \<open>2 ^ 1024\<close> or more is an
  infinity. The operators follow IEEE-754 on the non-finite values: \<^verbatim>\<open>NaN\<close> propagates, a
  non-zero number divided by zero is an infinity, \<^verbatim>\<open>0 / 0\<close>, \<^verbatim>\<open>Infinity - Infinity\<close>,
  \<^verbatim>\<open>0 * Infinity\<close> and \<^verbatim>\<open>Infinity / Infinity\<close> are \<^verbatim>\<open>NaN\<close>, and a comparison with \<^verbatim>\<open>NaN\<close>
  is false. The sign of zero is not modelled; zero counts as positive zero.

  \<^verbatim>\<open>Math.sqrt\<close> is correctly rounded, as IEEE-754 requires, and \<^verbatim>\<open>NaN\<close> below zero.
  \<^verbatim>\<open>Math.exp\<close> and \<^verbatim>\<open>Math.log\<close> are left to the implementation by the language
  standard, so they are parameters of the model, the record \<open>math_lib\<close>; \<open>faithful_lib\<close>
  asks of them a faithful rounding of the exact value (an error below one unit in the
  last place), and \<open>nearest_lib\<close> is the library that rounds correctly. \<^verbatim>\<open>Math.log\<close> is
  \<^verbatim>\<open>-Infinity\<close> at zero and \<^verbatim>\<open>NaN\<close> below it. \<^verbatim>\<open>Math.PI\<close> is the double nearest to
  \<open>pi\<close>, \<^verbatim>\<open>Math.pow(x, 2)\<close> is the rounded product \<^verbatim>\<open>x * x\<close>, a decimal literal of the
  source is the double nearest to the rational it denotes, and the literals \<open>0.5\<close>, \<open>1\<close>,
  \<open>2\<close>, \<open>100\<close> and \<open>365\<close> are doubles. \<open>js_le\<close> is the comparison \<^verbatim>\<open><=\<close> of two Numbers.
\<close>

datatype jsnum = Fin real | PosInf | NegInf | NaN

definition isFinite :: "jsnum \<Rightarrow> bool" where
  "isFinite v = (case v of Fin _ \<Rightarrow> True | _ \<Rightarrow> False)"

definition range_of :: "real \<Rightarrow> jsnum" where
  "range_of w = (if w \<ge> 2 ^ 1024 then PosInf else if w \<le> - (2 ^ 1024) then NegInf else Fin w)"

definition to_double :: "real \<Rightarrow> jsnum" where
  "to_double v = range_of (fl v)"

record math_lib =
  lib_exp :: "real \<Rightarrow> real"
  lib_log :: "real \<Rightarrow> real"

definition faithful_lib :: "math_lib \<Rightarrow> bool" where
  "faithful_lib lib \<longleftrightarrow>
     (\<forall>v. faithful_val (exp v) (lib_exp lib v)) \<and> (\<forall>v. faithful_val (ln v) (lib_log lib v))"

definition nearest_lib :: math_lib where
  "nearest_lib = \<lparr>lib_exp = (\<lambda>v. fl (exp v)), lib_log = (\<lambda>v. fl (ln v))\<rparr>"

definition Math_PI :: real where
  "Math_PI = fl pi"

definition inf_of :: "bool \<Rightarrow> jsnum" where
  "inf_of negative = (if negative then NegInf else PosInf)"

fun is_neg :: "jsnum \<Rightarrow> bool" where
  "is_neg (Fin v) = (v < 0)"
| "is_neg NegInf = True"
| "is_neg _ = False"

fun js_neg :: "jsnum \<Rightarrow> jsnum" where
  "js_neg (Fin v) = Fin (- v)"
| "js_neg PosInf = NegInf"
| "js_neg NegInf = PosInf"
| "js_neg NaN = NaN"

fun js_abs :: "jsnum \<Rightarrow> jsnum" where
  "js_abs (Fin v) = Fin \<bar>v\<bar>"
| "js_abs NaN = NaN"
| "js_abs _ = PosInf"

fun js_add :: "jsnum \<Rightarrow> jsnum \<Rightarrow> jsnum" where
  "js_add NaN _ = NaN"
| "js_add _ NaN = NaN"
| "js_add (Fin a) (Fin b) = to_double (a + b)"
| "js_add (Fin a) b = b"
| "js_add a (Fin b) = a"
| "js_add a b = (if a = b then a else NaN)"

definition js_sub :: "jsnum \<Rightarrow> jsnum \<Rightarrow> jsnum" where
  "js_sub a b = js_add a (js_neg b)"

fun js_mul :: "jsnum \<Rightarrow> jsnum \<Rightarrow> jsnum" where
  "js_mul NaN _ = NaN"
| "js_mul _ NaN = NaN"
| "js_mul (Fin a) (Fin b) = to_double (a * b)"
| "js_mul (Fin a) b = (if a = 0 then NaN else inf_of ((a < 0) \<noteq> is_neg b))"
| "js_mul a (Fin b) = (if b = 0 then NaN else inf_of (is_neg a \<noteq> (b < 0)))"
| "js_mul a b = inf_of (is_neg a \<noteq> is_neg b)"

fun js_div :: "jsnum \<Rightarrow> jsnum \<Rightarrow> jsnum" where
  "js_div NaN _ = NaN"
| "js_div _ NaN = NaN"
| "js_div (Fin a) (Fin b) =
     (if b = 0 then (if a = 0 then NaN else inf_of (a < 0)) else to_double (a / b))"
| "js_div (Fin a) b = Fin 0"
| "js_div a (Fin b) = inf_of (is_neg a \<noteq> (b < 0))"
| "js_div a b = NaN"

fun js_exp :: "math_lib \<Rightarrow> jsnum \<Rightarrow> jsnum" where
  "js_exp lib (Fin v) = range_of (lib_exp lib v)"
| "js_exp lib PosInf = PosInf"
| "js_exp lib NegInf = Fin 0"
| "js_exp lib NaN = NaN"

fun js_log :: "math_lib \<Rightarrow> jsnum \<Rightarrow> jsnum" where
  "js_log lib (Fin v) = (if v < 0 then NaN else if v = 0 then NegInf else Fin (lib_log lib v))"
| "js_log lib PosInf = PosInf"
| "js_log lib _ = NaN"

fun js_sqrt :: "jsnum \<Rightarrow> jsnum" where
  "js_sqrt (Fin v) = (if v < 0 then NaN else Fin (fl (sqrt v)))"
| "js_sqrt PosInf = PosInf"
| "js_sqrt _ = NaN"

fun js_ge0 :: "jsnum \<Rightarrow> bool" where
  "js_ge0 (Fin v) = (v \<ge> 0)"
| "js_ge0 PosInf = True"
| "js_ge0 _ = False"

fun js_le :: "jsnum \<Rightarrow> jsnum \<Rightarrow> bool" where
  "js_le NaN _ = False"
| "js_le _ NaN = False"
| "js_le (Fin a) (Fin b) = (a \<le> b)"
| "js_le NegInf _ = True"
| "js_le _ PosInf = True"
| "js_le _ _ = False"

definition js_pdf :: "math_lib \<Rightarrow> jsnum \<Rightarrow> jsnum" where
  "js_pdf lib x =
     js_div (js_exp lib (js_mul (js_mul (Fin (- 0.5)) x) x))
       (js_sqrt (js_mul (Fin 2) (Fin Math_PI)))"

definition js_cdf :: "math_lib \<Rightarrow> jsnum \<Rightarrow> jsnum" where
  "js_cdf lib x0 =
     (let sign = (if js_ge0 x0 then Fin 1 else Fin (- 1));
          x = js_abs x0;
          a1 = to_double 0.254829592;
          a2 = to_double (- 0.284496736);
          a3 = to_double 1.421413741;
          a4 = to_double (- 1.453152027);
          a5 = to_double 1.061405429;
          p = to_double 0.3275911;
          t = js_div (Fin 1) (js_add (Fin 1) (js_mul p x));
          y = js_sub (Fin 1)
                (js_mul
                  (js_mul
                    (js_add (js_mul
                      (js_add (js_mul
                        (js_add (js_mul
                          (js_add (js_mul a5 t) a4) t) a3) t) a2) t) a1) t)
                  (js_exp lib (js_mul (js_neg x) x)))
      in js_mul (Fin 0.5) (js_add (Fin 1) (js_mul sign y)))"

record js_params =
  js_S :: jsnum
  js_K :: jsnum
  js_r :: jsnum
  js_T :: jsnum
  js_sigma :: jsnum

record js_BlackScholes = js_params +
  js_d1 :: jsnum
  js_d2 :: jsnum

definition js_calculateD1D2 :: "math_lib \<Rightarrow> js_params \<Rightarrow> js_BlackScholes" where
  "js_calculateD1D2 lib this =
     (let d1 = js_div
                 (js_add (js_log lib (js_div (js_S this) (js_K this)))
                    (js_mul
                       (js_add (js_r this)
                          (js_mul (Fin 0.5) (js_mul (js_sigma this) (js_sigma this))))
                       (js_T this)))
                 (js_mul (js_sigma this) (js_sqrt (js_T this)));
          d2 = js_sub d1 (js_mul (js_sigma this) (js_sqrt (js_T this)))
      in \<lparr>js_S = js_S this, js_K = js_K this, js_r = js_r this, js_T = js_T this,
          js_sigma = js_sigma this, js_d1 = d1, js_d2 = d2\<rparr>)"

definition js_new_BlackScholes ::
  "math_lib \<Rightarrow> jsnum \<Rightarrow> jsnum \<Rightarrow> jsnum \<Rightarrow> jsnum \<Rightarrow> jsnum \<Rightarrow> js_BlackScholes" where
  "js_new_BlackScholes lib S K r T sigma =
     js_calculateD1D2 lib \<lparr>js_S = S, js_K = K, js_r = r, js_T = T, js_sigma = sigma\<rparr>"

definition js_callPrice :: "math_lib \<Rightarrow> js_BlackScholes \<Rightarrow> jsnum" where
  "js_callPrice lib this =
     js_sub (js_mul (js_S this) (js_cdf lib (js_d1 this)))
       (js_mul
          (js_mul (js_K this) (js_exp lib (js_mul (js_neg (js_r this)) (js_T this))))
          (js_cdf lib (js_d2 this)))"

definition js_putPrice :: "math_lib \<Rightarrow> js_BlackScholes \<Rightarrow> jsnum" where
  "js_putPrice lib this =
     js_sub
       (js_mul
          (js_mul (js_K this) (js_exp lib (js_mul (js_neg (js_r this)) (js_T this))))
          (js_cdf lib (js_neg (js_d2 this))))
       (js_mul (js_S this) (js_cdf lib (js_neg (js_d1 this))))"

definition js_deltaCall :: "math_lib \<Rightarrow> js_BlackScholes \<Rightarrow> jsnum" where
  "js_deltaCall lib this = js_cdf lib (js_d1 this)"

definition js_deltaPut :: "math_lib \<Rightarrow> js_BlackScholes \<Rightarrow> jsnum" where
  "js_deltaPut lib this = js_sub (js_cdf lib (js_d1 this)) (Fin 1)"

definition js_gamma :: "math_lib \<Rightarrow> js_BlackScholes \<Rightarrow> jsnum" where
  "js_gamma lib this =
     js_div (js_pdf lib (js_d1 this))
       (js_mul (js_mul (js_S this) (js_sigma this)) (js_sqrt (js_T this)))"

definition js_vega :: "math_lib \<Rightarrow> js_BlackScholes \<Rightarrow> jsnum" where
  "js_vega lib this =
     js_div
       (js_mul (js_mul (js_S this) (js_pdf lib (js_d1 this))) (js_sqrt (js_T this)))
       (Fin 100)"

definition js_thetaCall :: "math_lib \<Rightarrow> js_BlackScholes \<Rightarrow> jsnum" where
  "js_thetaCall lib this =
     (let t1 = js_div
                 (js_neg (js_mul (js_mul (js_S this) (js_pdf lib (js_d1 this)))
                            (js_sigma this)))
                 (js_mul (Fin 2) (js_sqrt (js_T this)));
          t2 = js_mul
                 (js_mul (js_mul (js_neg (js_r this)) (js_K this))
                    (js_exp lib (js_mul (js_neg (js_r this)) (js_T this))))
                 (js_cdf lib (js_d2 this))
      in js_div (js_add t1 t2) (Fin 365))"

definition js_rhoCall :: "math_lib \<Rightarrow> js_BlackScholes \<Rightarrow> jsnum" where
  "js_rhoCall lib this =
     js_div
       (js_mul
          (js_mul (js_mul (js_K this) (js_T this))
             (js_exp lib (js_mul (js_neg (js_r this)) (js_T this))))
          (js_cdf lib (js_d2 this)))
       (Fin 100)"

subsection \<open>Auxiliary functions of the analysis\<close>

text \<open>
  The polynomial of \<^verbatim>\<open>cdf\<close> in the variable \<open>t\<close>, its derivative, and the value \<open>y\<close>
  that \<^verbatim>\<open>cdf\<close> computes from the absolute value of its argument. They name parts of
  the body of \<open>cdf\<close>; lemma \<open>cdf_as_y\<close> below states the connection.
\<close>

definition as_poly :: "real \<Rightarrow> real" where
  "as_poly t =
     (((((1.061405429 * t + - 1.453152027) * t) + 1.421413741) * t + - 0.284496736) * t
        + 0.254829592) * t"

definition as_poly' :: "real \<Rightarrow> real" where
  "as_poly' t =
     0.254829592 - 0.568993472 * t + 4.264241223 * t\<^sup>2 - 5.812608108 * t ^ 3
       + 5.307027145 * t ^ 4"

definition as_y :: "real \<Rightarrow> real" where
  "as_y x = 1 - as_poly (1 / (1 + 0.3275911 * x)) * exp (- x * x)"

subsection \<open>Tolerances\<close>


subsection \<open>The standard normal distribution function\<close>

text \<open>
  The reference for the approximation claim, following the mathematics and not the
  source: the standard normal cumulative distribution function as the term-wise integral
  of the power series of its density,
  \<open>1 / 2 + (\<Sum>n. (- 1) ^ n * x ^ (2 * n + 1) / (2 ^ n * fact n * (2 * n + 1))) / sqrt (2 * pi)\<close>.
  Lemmas \<open>std_normal_cdf_deriv\<close> and \<open>std_normal_cdf_0\<close> below show that its derivative is
  the \<open>pdf\<close> of the source and that its value at 0 is one half. \<open>std_normal_coeff\<close> are the
  coefficients of the same series in powers of \<open>x\<close>, and \<open>leib\<close> are the magnitudes of
  its terms.
\<close>

definition std_normal_term :: "real \<Rightarrow> nat \<Rightarrow> real" where
  "std_normal_term x n = (- 1) ^ n * x ^ (2 * n + 1) / (2 ^ n * fact n * real (2 * n + 1))"

definition std_normal_cdf :: "real \<Rightarrow> real" where
  "std_normal_cdf x = 1 / 2 + (\<Sum>n. std_normal_term x n) / sqrt (2 * pi)"

definition std_normal_coeff :: "nat \<Rightarrow> real" where
  "std_normal_coeff k =
     (if even k then (- 1) ^ (k div 2) / (2 ^ (k div 2) * fact (k div 2) * real (k + 1)) else 0)"

definition leib :: "real \<Rightarrow> nat \<Rightarrow> real" where
  "leib x n = x ^ (2 * n + 1) / (2 ^ n * fact n * real (2 * n + 1))"

subsection \<open>Magnitudes of doubles\<close>

text \<open>
  Bounds on a Number by powers of two, which rounding preserves: \<open>mag k x\<close> says that \<open>x\<close>
  is finite with magnitude at most \<open>2 ^ k\<close>, \<open>pos j k x\<close> that it is finite and between
  \<open>2 ^ j\<close> and \<open>2 ^ k\<close>, \<open>nneg k x\<close> that it is finite and between \<open>0\<close> and \<open>2 ^ k\<close>, and
  \<open>nonpos x\<close> that it is finite and at most \<open>0\<close>.
\<close>

definition mag :: "int \<Rightarrow> jsnum \<Rightarrow> bool" where
  "mag k x \<longleftrightarrow> (\<exists>w. x = Fin w \<and> \<bar>w\<bar> \<le> 2 powi k)"

definition pos :: "int \<Rightarrow> int \<Rightarrow> jsnum \<Rightarrow> bool" where
  "pos j k x \<longleftrightarrow> (\<exists>w. x = Fin w \<and> 2 powi j \<le> w \<and> w \<le> 2 powi k)"

definition nneg :: "int \<Rightarrow> jsnum \<Rightarrow> bool" where
  "nneg k x \<longleftrightarrow> (\<exists>w. x = Fin w \<and> 0 \<le> w \<and> w \<le> 2 powi k)"

definition nonpos :: "jsnum \<Rightarrow> bool" where
  "nonpos x \<longleftrightarrow> (\<exists>w. x = Fin w \<and> w \<le> 0)"

text \<open>
  \<open>apx d A v x\<close> says that the Number \<open>x\<close> is finite and within \<open>d\<close> of the real \<open>v\<close>, whose
  magnitude is at most \<open>A\<close>: the double \<open>x\<close> approximates the exact value \<open>v\<close>.
\<close>

definition apx :: "real \<Rightarrow> real \<Rightarrow> real \<Rightarrow> jsnum \<Rightarrow> bool" where
  "apx d A v x \<longleftrightarrow> (\<exists>w. x = Fin w \<and> \<bar>w - v\<bar> \<le> d \<and> \<bar>v\<bar> \<le> A)"

subsection \<open>Bounds on the exponential function\<close>

text \<open>
  The Taylor polynomial of \<open>exp (- w)\<close> of degree seven, and the same with a bound on the
  remainder added; for \<open>0 \<le> w \<le> 1\<close> they enclose \<open>exp (- w)\<close> (lemma \<open>exp_neg_bounds\<close>).
\<close>

definition exp_lower8 :: "real \<Rightarrow> real" where
  "exp_lower8 w = 1 - w + w ^ 2 / 2 - w ^ 3 / 6 + w ^ 4 / 24 - w ^ 5 / 120 + w ^ 6 / 720
     - w ^ 7 / 5040"

definition exp_upper8 :: "real \<Rightarrow> real" where
  "exp_upper8 w = exp_lower8 w + w ^ 8 / 13440"

section \<open>Properties of the normal-distribution helper\<close>

lemma cdf_as_y: "cdf x0 = 0.5 * (1 + (if x0 \<ge> 0 then 1 else - 1) * as_y \<bar>x0\<bar>)"
  unfolding cdf_def as_y_def as_poly_def Let_def by simp

lemma as_y_0: "as_y 0 = 1 / 10 ^ 9"
  by (simp add: as_y_def as_poly_def)

lemma cdf_sum_nonzero: "x \<noteq> 0 \<Longrightarrow> cdf x + cdf (- x) = 1"
  by (cases "x > 0") (simp_all add: cdf_as_y field_simps)

lemma cdf_sum_zero: "cdf 0 + cdf (- 0) = 1 + 1 / 10 ^ 9"
  by (simp add: cdf_as_y as_y_0)

text \<open>
  C7. For every real \<open>x\<close>, \<open>cdf x + cdf (- x)\<close> equals 1 within the absolute tolerance
  \<open>1e-6\<close>. (The sum is exactly 1 for \<open>x \<noteq> 0\<close> and \<open>1 + 1e-9\<close> at \<open>x = 0\<close>.)
\<close>

theorem cdf_reflection: "\<bar>cdf x + cdf (- x) - 1\<bar> \<le> 1 / 10 ^ 6"
proof (cases "x = 0")
  case True
  then show ?thesis using cdf_sum_zero by simp
next
  case False
  then show ?thesis by (simp add: cdf_sum_nonzero)
qed

subsection \<open>The polynomial is non-decreasing\<close>

lemma quadratic_nonneg:
  fixes A B C t :: real
  assumes "0 < A" "B\<^sup>2 \<le> 4 * A * C"
  shows "0 \<le> A + B * t + C * t\<^sup>2"
proof -
  have "4 * A * (A + B * t + C * t\<^sup>2) = (2 * A + B * t)\<^sup>2 + (4 * A * C - B\<^sup>2) * t\<^sup>2"
    by (simp add: power2_eq_square algebra_simps)
  moreover have "0 \<le> (2 * A + B * t)\<^sup>2 + (4 * A * C - B\<^sup>2) * t\<^sup>2"
    using assms by (intro add_nonneg_nonneg mult_nonneg_nonneg) simp_all
  ultimately have "0 \<le> 4 * A * (A + B * t + C * t\<^sup>2)" by simp
  then show ?thesis using assms(1) by (simp add: zero_le_mult_iff)
qed

lemma as_poly'_nonneg: "0 \<le> as_poly' t"
proof -
  have 1: "0 \<le> 0.254829592 + (- 0.568993472) * t + 0.4 * t\<^sup>2"
    by (rule quadratic_nonneg) (simp_all add: power2_eq_square)
  have "0 \<le> 3.864241223 + (- 5.812608108) * t + 5.307027145 * t\<^sup>2"
    by (rule quadratic_nonneg) (simp_all add: power2_eq_square)
  then have 2: "0 \<le> t\<^sup>2 * (3.864241223 + (- 5.812608108) * t + 5.307027145 * t\<^sup>2)"
    by (rule mult_nonneg_nonneg [OF zero_le_power2])
  have "as_poly' t = (0.254829592 + (- 0.568993472) * t + 0.4 * t\<^sup>2)
      + t\<^sup>2 * (3.864241223 + (- 5.812608108) * t + 5.307027145 * t\<^sup>2)"
    by (simp add: as_poly'_def power2_eq_square power3_eq_cube power4_eq_xxxx algebra_simps)
  then show ?thesis
    using add_nonneg_nonneg [OF 1 2] by simp
qed

lemma as_poly_deriv: "DERIV as_poly t :> as_poly' t"
  unfolding as_poly_def as_poly'_def
  by (rule derivative_eq_intros refl
      | simp add: power2_eq_square power3_eq_cube power4_eq_xxxx algebra_simps)+

lemma as_poly_mono: "s \<le> t \<Longrightarrow> as_poly s \<le> as_poly t"
  by (rule DERIV_nonneg_imp_nondecreasing) (auto intro: as_poly_deriv as_poly'_nonneg)

lemma as_poly_0: "as_poly 0 = 0"
  by (simp add: as_poly_def)

lemma as_poly_1: "as_poly 1 = 1 - 1 / 10 ^ 9"
  by (simp add: as_poly_def)

lemma as_t_bounds:
  fixes x :: real
  assumes "0 \<le> x"
  shows "0 < 1 / (1 + 0.3275911 * x)" and "1 / (1 + 0.3275911 * x) \<le> 1"
proof -
  have "1 \<le> 1 + 0.3275911 * x" using assms by simp
  then show "0 < 1 / (1 + 0.3275911 * x)" and "1 / (1 + 0.3275911 * x) \<le> 1"
    by simp_all
qed

lemma as_t_antimono:
  fixes x1 x2 :: real
  assumes "0 \<le> x1" "x1 \<le> x2"
  shows "1 / (1 + 0.3275911 * x2) \<le> 1 / (1 + 0.3275911 * x1)"
  using assms by (intro divide_left_mono) (simp_all add: add_pos_nonneg)

lemma as_poly_t_nonneg:
  assumes "0 \<le> x"
  shows "0 \<le> as_poly (1 / (1 + 0.3275911 * x))"
  using as_poly_mono [of 0 "1 / (1 + 0.3275911 * x)"] as_t_bounds(1) [OF assms]
  by (simp add: as_poly_0)

lemma as_tail_bounds:
  assumes "0 \<le> x"
  shows "0 \<le> as_poly (1 / (1 + 0.3275911 * x)) * exp (- x * x)"
    and "as_poly (1 / (1 + 0.3275911 * x)) * exp (- x * x) \<le> 1 - 1 / 10 ^ 9"
proof -
  let ?t = "1 / (1 + 0.3275911 * x)"
  have p0: "0 \<le> as_poly ?t" by (rule as_poly_t_nonneg [OF assms])
  have p1: "as_poly ?t \<le> 1 - 1 / 10 ^ 9"
    using as_poly_mono [of ?t 1] as_t_bounds(2) [OF assms] by (simp add: as_poly_1)
  have e1: "exp (- x * x) \<le> 1" using assms by simp
  show "0 \<le> as_poly ?t * exp (- x * x)" using p0 by simp
  have "as_poly ?t * exp (- x * x) \<le> as_poly ?t * 1"
    using p0 e1 by (intro mult_left_mono)
  then show "as_poly ?t * exp (- x * x) \<le> 1 - 1 / 10 ^ 9" using p1 by simp
qed

lemma as_y_bounds:
  assumes "0 \<le> x"
  shows "1 / 10 ^ 9 \<le> as_y x" and "as_y x \<le> 1"
  using as_tail_bounds [OF assms] by (simp_all add: as_y_def)

lemma as_y_mono:
  assumes "0 \<le> x1" "x1 \<le> x2"
  shows "as_y x1 \<le> as_y x2"
proof -
  let ?t1 = "1 / (1 + 0.3275911 * x1)" and ?t2 = "1 / (1 + 0.3275911 * x2)"
  have x2: "0 \<le> x2" using assms by simp
  have "as_poly ?t2 \<le> as_poly ?t1"
    by (rule as_poly_mono) (rule as_t_antimono [OF assms])
  moreover have "exp (- x2 * x2) \<le> exp (- x1 * x1)"
    using assms by (simp add: mult_mono)
  moreover have "0 \<le> as_poly ?t2" by (rule as_poly_t_nonneg [OF x2])
  ultimately have "as_poly ?t2 * exp (- x2 * x2) \<le> as_poly ?t1 * exp (- x1 * x1)"
    by (intro mult_mono) simp_all
  then show ?thesis by (simp add: as_y_def)
qed

lemma cdf_bounds: "0 \<le> cdf x" "cdf x \<le> 1"
proof -
  have "0 \<le> cdf x \<and> cdf x \<le> 1"
  proof (cases "0 \<le> x")
    case True
    then show ?thesis using as_y_bounds [of x] by (simp add: cdf_as_y)
  next
    case False
    then show ?thesis using as_y_bounds [of "- x"] by (simp add: cdf_as_y)
  qed
  then show "0 \<le> cdf x" "cdf x \<le> 1" by simp_all
qed

text \<open>
  C10. For every real \<open>x\<close> the value of \<open>cdf x\<close> lies in the closed interval from 0 to 1;
  hence \<open>deltaCall\<close> lies between 0 and 1 and \<open>deltaPut\<close> between \<open>-1\<close> and 0, for
  every calculator object.
\<close>

theorem cdf_range:
  "0 \<le> cdf x \<and> cdf x \<le> 1
   \<and> 0 \<le> deltaCall bs \<and> deltaCall bs \<le> 1
   \<and> - 1 \<le> deltaPut bs \<and> deltaPut bs \<le> 0"
  using cdf_bounds [of x] cdf_bounds [of "this_d1 bs"]
  by (simp add: deltaCall_def deltaPut_def)

lemma cdf_real_mono:
  assumes "x1 \<le> x2"
  shows "cdf x1 \<le> cdf x2"
proof -
  consider "0 \<le> x1" | "x1 < 0" "0 \<le> x2" | "x2 < 0"
    using assms by linarith
  then show ?thesis
  proof cases
    case 1
    then show ?thesis using as_y_mono [of x1 x2] assms by (simp add: cdf_as_y)
  next
    case 2
    then show ?thesis
      using as_y_bounds(1) [of "\<bar>x1\<bar>"] as_y_bounds(1) [of "\<bar>x2\<bar>"] by (simp add: cdf_as_y)
  next
    case 3
    then show ?thesis using as_y_mono [of "- x2" "- x1"] assms by (simp add: cdf_as_y)
  qed
qed

section \<open>The pricing operations\<close>

text \<open>
  C3. For \<open>S > 0\<close>, \<open>K > 0\<close>, \<open>T > 0\<close>, \<open>sigma > 0\<close> and any \<open>r\<close>, construction computes
  \<open>d1 = (ln (S / K) + (r + 0.5 * sigma\<^sup>2) * T) / (sigma * sqrt T)\<close> and
  \<open>d2 = d1 - sigma * sqrt T\<close>, and each pricing operation equals its closed-form formula
  in these cached values.
\<close>

theorem pricing_formulas:
  assumes "S > 0" "K > 0" "T > 0" "sigma > 0"
    and "bs = new_BlackScholes S K r T sigma"
  shows "this_d1 bs = (ln (S / K) + (r + 0.5 * sigma\<^sup>2) * T) / (sigma * sqrt T)
    \<and> this_d2 bs = this_d1 bs - sigma * sqrt T
    \<and> callPrice bs = S * cdf (this_d1 bs) - K * exp (- (r * T)) * cdf (this_d2 bs)
    \<and> putPrice bs = K * exp (- (r * T)) * cdf (- this_d2 bs) - S * cdf (- this_d1 bs)
    \<and> deltaCall bs = cdf (this_d1 bs)
    \<and> deltaPut bs = cdf (this_d1 bs) - 1
    \<and> gamma bs = pdf (this_d1 bs) / (S * sigma * sqrt T)
    \<and> vega bs = S * pdf (this_d1 bs) * sqrt T / 100
    \<and> thetaCall bs = (- S * pdf (this_d1 bs) * sigma / (2 * sqrt T)
                          - r * K * exp (- (r * T)) * cdf (this_d2 bs)) / 365
    \<and> rhoCall bs = K * T * exp (- (r * T)) * cdf (this_d2 bs) / 100"
  unfolding assms(5)
  by (simp add: new_BlackScholes_def calculateD1D2_def callPrice_def putPrice_def
      deltaCall_def deltaPut_def gamma_def vega_def thetaCall_def rhoCall_def Let_def)

theorem pricing_formulas_witness:
  "this_d1 (new_BlackScholes 100 100 0.05 1 0.2) = 0.35
   \<and> this_d2 (new_BlackScholes 100 100 0.05 1 0.2) = 0.15
   \<and> deltaCall (new_BlackScholes 100 100 0.05 1 0.2) = cdf 0.35"
proof -
  let ?bs = "new_BlackScholes 100 100 0.05 1 0.2"
  have h: "(0::real) < 100" "(0::real) < 1" "(0::real) < 0.2" by simp_all
  note f = pricing_formulas [OF h(1) h(1) h(2) h(3) refl, of "0.05"]
  from f have d1: "this_d1 ?bs = (ln (100 / 100) + (0.05 + 0.5 * 0.2\<^sup>2) * 1) / (0.2 * sqrt 1)"
    by (rule conjunct1)
  from f have d2: "this_d2 ?bs = this_d1 ?bs - 0.2 * sqrt 1"
    by (elim conjE)
  from f have dc: "deltaCall ?bs = cdf (this_d1 ?bs)"
    by (elim conjE)
  have d1': "this_d1 ?bs = 0.35" unfolding d1 by (simp add: power2_eq_square)
  have d2': "this_d2 ?bs = 0.15" unfolding d2 d1' by simp
  have dc': "deltaCall ?bs = cdf 0.35" unfolding dc d1' by (rule refl)
  show ?thesis by (intro conjI d1' d2' dc')
qed


lemma new_BlackScholes_fields:
  "this_S (new_BlackScholes S K r T sigma) = S"
  "this_K (new_BlackScholes S K r T sigma) = K"
  "this_r (new_BlackScholes S K r T sigma) = r"
  "this_T (new_BlackScholes S K r T sigma) = T"
  "this_sigma (new_BlackScholes S K r T sigma) = sigma"
  by (simp_all add: new_BlackScholes_def calculateD1D2_def Let_def)

lemma new_BlackScholes_d1:
  "this_d1 (new_BlackScholes S K r T sigma) =
     (ln (S / K) + (r + 0.5 * sigma\<^sup>2) * T) / (sigma * sqrt T)"
  by (simp add: new_BlackScholes_def calculateD1D2_def Let_def)

lemma new_BlackScholes_d2:
  "this_d2 (new_BlackScholes S K r T sigma) =
     this_d1 (new_BlackScholes S K r T sigma) - sigma * sqrt T"
  by (simp add: new_BlackScholes_def calculateD1D2_def Let_def)






section \<open>The surface sampler\<close>

lemma inner_loop_eq:
  "j \<le> stepsS + 1 \<Longrightarrow>
   inner_loop minS stepSizeS stepsS K r sigma t_val i j (x_data, row_z) =
     ((if i = 0 then x_data @ map (\<lambda>j'. minS + real j' * stepSizeS) [j..<stepsS + 1]
       else x_data),
      row_z @ map (\<lambda>j'. gamma (new_BlackScholes (minS + real j' * stepSizeS) K r t_val sigma))
                [j..<stepsS + 1])"
proof (induction minS stepSizeS stepsS K r sigma t_val i j "(x_data, row_z)"
    arbitrary: x_data row_z rule: inner_loop.induct)
  case (1 minS stepSizeS stepsS K r sigma t_val i j x_data row_z)
  show ?case
  proof (cases "j \<le> stepsS")
    case True
    then have hd: "[j..<stepsS + 1] = j # [j + 1..<stepsS + 1]"
      by (simp add: upt_conv_Cons)
    from True have "j + 1 \<le> stepsS + 1" by simp
    note IH = "1.hyps" [OF True refl refl refl refl this]
    have "inner_loop minS stepSizeS stepsS K r sigma t_val i j (x_data, row_z) =
        inner_loop minS stepSizeS stepsS K r sigma t_val i (j + 1)
          (if i = 0 then x_data @ [minS + real j * stepSizeS] else x_data,
           row_z @ [gamma (new_BlackScholes (minS + real j * stepSizeS) K r t_val sigma)])"
      by (subst inner_loop.simps) (simp only: True if_True Let_def)
    also note IH
    finally show ?thesis unfolding hd by simp
  next
    case False
    with "1.prems" have "j = stepsS + 1" by simp
    then show ?thesis by (subst inner_loop.simps) simp
  qed
qed

lemma outer_loop_eq:
  "i \<le> stepsT + 1 \<Longrightarrow>
   outer_loop minS stepSizeS stepsS stepSizeT stepsT K r sigma i (x_data, y_data, z_data) =
     ((if i = 0 then x_data @ map (\<lambda>j'. minS + real j' * stepSizeS) [0..<stepsS + 1]
       else x_data),
      y_data @ map (\<lambda>i'. 0.01 + real i' * stepSizeT) [i..<stepsT + 1],
      z_data @ map (\<lambda>i'. map (\<lambda>j'. gamma (new_BlackScholes (minS + real j' * stepSizeS) K r
                                    (0.01 + real i' * stepSizeT) sigma)) [0..<stepsS + 1])
                 [i..<stepsT + 1])"
proof (induction minS stepSizeS stepsS stepSizeT stepsT K r sigma i "(x_data, y_data, z_data)"
    arbitrary: x_data y_data z_data rule: outer_loop.induct)
  case (1 minS stepSizeS stepsS stepSizeT stepsT K r sigma i x_data y_data z_data)
  let ?xs = "map (\<lambda>j'. minS + real j' * stepSizeS) [0..<stepsS + 1]"
  let ?row = "\<lambda>i'. map (\<lambda>j'. gamma (new_BlackScholes (minS + real j' * stepSizeS) K r
                                    (0.01 + real i' * stepSizeT) sigma)) [0..<stepsS + 1]"
  show ?case
  proof (cases "i \<le> stepsT")
    case True
    then have hd: "[i..<stepsT + 1] = i # [i + 1..<stepsT + 1]"
      by (simp add: upt_conv_Cons)
    from True have le: "i + 1 \<le> stepsT + 1" by simp
    have inner: "inner_loop minS stepSizeS stepsS K r sigma (0.01 + real i * stepSizeT) i 0
        (x_data, []) = (if i = 0 then x_data @ ?xs else x_data, ?row i)"
      using inner_loop_eq [of 0 stepsS minS stepSizeS K r sigma "0.01 + real i * stepSizeT" i x_data "[]"]
      by simp
    note IH = "1.hyps" [OF True refl refl refl inner [symmetric] refl refl le]
    have "outer_loop minS stepSizeS stepsS stepSizeT stepsT K r sigma i (x_data, y_data, z_data) =
        outer_loop minS stepSizeS stepsS stepSizeT stepsT K r sigma (i + 1)
          (if i = 0 then x_data @ ?xs else x_data,
           y_data @ [0.01 + real i * stepSizeT], z_data @ [?row i])"
      by (subst outer_loop.simps) (simp only: True if_True Let_def inner prod.case)
    also note IH
    finally show ?thesis unfolding hd by simp
  next
    case False
    with "1.prems" have "i = stepsT + 1" by simp
    then show ?thesis by (subst outer_loop.simps) simp
  qed
qed

lemma generateSurfaceData_eq:
  "generateSurfaceData currentS K r currentT sigma =
     \<lparr>surface_x = map (\<lambda>j. currentS * 0.5 + real j * (currentS / 30)) [0..<31],
      surface_y = map (\<lambda>i. 0.01 + real i * (max (currentT * 1.5) 1 / 30)) [0..<31],
      surface_z = map (\<lambda>i. map (\<lambda>j. gamma (new_BlackScholes
                          (currentS * 0.5 + real j * (currentS / 30)) K r
                          (0.01 + real i * (max (currentT * 1.5) 1 / 30)) sigma)) [0..<31])
                   [0..<31]\<rparr>"
proof -
  have 1: "currentS * (1 - 0.50) = currentS * 0.5" by simp
  have 2: "(currentS * (1 + 0.50) - currentS * (1 - 0.50)) / real 30 = currentS / 30"
    by (simp add: algebra_simps)
  show ?thesis
    unfolding generateSurfaceData_def Let_def
    by (subst outer_loop_eq) (simp_all add: 1 2 del: upt_rec_numeral upt_Suc)
qed

lemma surface_y_nth:
  "i < 31 \<Longrightarrow> surface_y (generateSurfaceData S K r T sigma) ! i
     = 0.01 + real i * (max (T * 1.5) 1 / 30)"
  by (simp add: generateSurfaceData_eq del: upt_rec_numeral upt_Suc)

lemma surface_x_nth:
  "j < 31 \<Longrightarrow> surface_x (generateSurfaceData S K r T sigma) ! j
     = S * 0.5 + real j * (S / 30)"
  by (simp add: generateSurfaceData_eq del: upt_rec_numeral upt_Suc)

lemma surface_z_nth:
  "i < 31 \<Longrightarrow> j < 31 \<Longrightarrow> surface_z (generateSurfaceData S K r T sigma) ! i ! j
     = gamma (new_BlackScholes (S * 0.5 + real j * (S / 30)) K r
                (0.01 + real i * (max (T * 1.5) 1 / 30)) sigma)"
  by (simp add: generateSurfaceData_eq del: upt_rec_numeral upt_Suc)

lemma surface_lengths:
  "length (surface_x (generateSurfaceData S K r T sigma)) = 31"
  "length (surface_y (generateSurfaceData S K r T sigma)) = 31"
  "length (surface_z (generateSurfaceData S K r T sigma)) = 31"
  "i < 31 \<Longrightarrow> length (surface_z (generateSurfaceData S K r T sigma) ! i) = 31"
  by (simp_all add: generateSurfaceData_eq del: upt_rec_numeral upt_Suc)

text \<open>
  C5. The time axis has 31 points and starts at \<open>0.01\<close>, but its last point is
  \<open>max (T * 1.5) 1.0 + 0.01\<close>, not \<open>max (T * 1.5) 1.0\<close>: the step is \<open>maxT / 30\<close> and the
  offset \<open>0.01\<close> is added to every point.
\<close>

theorem surface_time_axis:
  "length (surface_y (generateSurfaceData S K r T sigma)) = 31
   \<and> surface_y (generateSurfaceData S K r T sigma) ! 0 = 0.01
   \<and> surface_y (generateSurfaceData S K r T sigma) ! 30 = max (T * 1.5) 1.0 + 0.01
   \<and> surface_y (generateSurfaceData S K r T sigma) ! 30 \<noteq> max (T * 1.5) 1.0"
proof -
  let ?y = "surface_y (generateSurfaceData S K r T sigma)"
  have len: "length ?y = 31" by (rule surface_lengths)
  have first: "?y ! 0 = 0.01"
    using surface_y_nth [of 0 S K r T sigma] by simp
  have last: "?y ! 30 = max (T * 1.5) 1.0 + 0.01"
    using surface_y_nth [of 30 S K r T sigma] by simp
  then have "?y ! 30 \<noteq> max (T * 1.5) 1.0" by simp
  with len first last show ?thesis by (intro conjI)
qed

text \<open>
  C6. For \<open>S > 0\<close>, \<open>K > 0\<close>, \<open>T > 0\<close>, \<open>sigma > 0\<close> the sampler returns \<open>x\<close> of length 31,
  evenly spaced from \<open>S * 0.5\<close> to \<open>S * 1.5\<close>, \<open>y\<close> of length 31, and \<open>z\<close> with 31 rows
  of length 31, where \<open>z ! i ! j\<close> is the gamma of a fresh calculator at spot \<open>x ! j\<close> and
  time to maturity \<open>y ! i\<close>, with \<open>K\<close>, \<open>r\<close> and \<open>sigma\<close> as given.
\<close>

theorem surface_grid:
  assumes "S > 0" "K > 0" "T > 0" "sigma > 0"
    and "g = generateSurfaceData S K r T sigma"
  shows "length (surface_x g) = 31
    \<and> (\<forall>j<31. surface_x g ! j = S * 0.5 + real j * ((S * 1.5 - S * 0.5) / 30))
    \<and> surface_x g ! 0 = S * 0.5
    \<and> surface_x g ! 30 = S * 1.5
    \<and> length (surface_y g) = 31
    \<and> length (surface_z g) = 31
    \<and> (\<forall>i<31. length (surface_z g ! i) = 31)
    \<and> (\<forall>i<31. \<forall>j<31. surface_z g ! i ! j
          = gamma (new_BlackScholes (surface_x g ! j) K r (surface_y g ! i) sigma))"
  unfolding assms(5)
  by (simp add: surface_lengths surface_x_nth surface_y_nth surface_z_nth)

theorem surface_grid_witness:
  "length (surface_x (generateSurfaceData 100 100 0.05 1 0.2)) = 31
   \<and> surface_x (generateSurfaceData 100 100 0.05 1 0.2) ! 0 = 50
   \<and> surface_x (generateSurfaceData 100 100 0.05 1 0.2) ! 30 = 150
   \<and> length (surface_z (generateSurfaceData 100 100 0.05 1 0.2) ! 3) = 31
   \<and> surface_z (generateSurfaceData 100 100 0.05 1 0.2) ! 3 ! 6
       = gamma (new_BlackScholes (surface_x (generateSurfaceData 100 100 0.05 1 0.2) ! 6) 100 0.05
           (surface_y (generateSurfaceData 100 100 0.05 1 0.2) ! 3) 0.2)"
proof -
  let ?g = "generateSurfaceData 100 100 0.05 1 0.2"
  have h: "(0::real) < 100" "(0::real) < 1" "(0::real) < 0.2" by simp_all
  note f = surface_grid [OF h(1) h(1) h(2) h(3) refl, of "0.05"]
  have i3: "(3::nat) < 31" and j6: "(6::nat) < 31" by simp_all
  from f have "length (surface_x ?g) = 31" by (elim conjE)
  moreover from f have "surface_x ?g ! 0 = 100 * 0.5" by (elim conjE)
  moreover from f have "surface_x ?g ! 30 = 100 * 1.5" by (elim conjE)
  moreover from f i3 have "length (surface_z ?g ! 3) = 31" by blast
  moreover from f i3 j6 have "surface_z ?g ! 3 ! 6
       = gamma (new_BlackScholes (surface_x ?g ! 6) 100 0.05 (surface_y ?g ! 3) 0.2)"
    by blast
  ultimately show ?thesis by simp
qed

section \<open>The approximation against the standard normal distribution function\<close>

subsection \<open>Bounds on the reference function\<close>

lemma pi_ge_3: "3 \<le> pi"
proof -
  have "sin (pi / 6) \<le> pi / 6" by (rule sin_x_le_x) simp
  then show ?thesis by (simp add: sin_30)
qed

lemma sqrt_2pi_ge: "2.4 \<le> sqrt (2 * pi)"
proof -
  have "sqrt 6 \<le> sqrt (2 * pi)" using pi_ge_3 by simp
  moreover have "2.4 \<le> sqrt 6" by (rule real_le_rsqrt) (simp add: power2_eq_square)
  ultimately show ?thesis by (rule order_trans [rotated])
qed

lemma leib_nonneg: "0 \<le> x \<Longrightarrow> 0 \<le> leib x n"
  by (simp add: leib_def)

lemma leib_decreasing:
  assumes "0 \<le> x" "x \<le> 1"
  shows "leib x (Suc n) \<le> leib x n"
  unfolding leib_def
proof (rule frac_le)
  show "0 \<le> x ^ (2 * n + 1)" using assms by simp
  show "x ^ (2 * Suc n + 1) \<le> x ^ (2 * n + 1)" using assms by (intro power_decreasing) simp_all
  show "0 < 2 ^ n * fact n * real (2 * n + 1)" by simp
  show "2 ^ n * fact n * real (2 * n + 1) \<le> 2 ^ Suc n * fact (Suc n) * real (2 * Suc n + 1)"
    by (intro mult_mono) (simp_all add: fact_mono)
qed

lemma leib_le:
  assumes "0 \<le> x" "x \<le> 1"
  shows "leib x n \<le> (1 / 2) ^ n"
proof -
  have "(1::real) * 1 \<le> fact n * real (2 * n + 1)"
    by (intro mult_mono) simp_all
  then have "(2::real) ^ n * 1 \<le> 2 ^ n * (fact n * real (2 * n + 1))"
    by (intro mult_left_mono) simp_all
  moreover have "x ^ (2 * n + 1) \<le> 1" using assms by (intro power_le_one)
  ultimately have "x ^ (2 * n + 1) / (2 ^ n * (fact n * real (2 * n + 1))) \<le> 1 / (2 :: real) ^ n"
    using assms(1) by (intro frac_le) simp_all
  then show ?thesis
    by (simp add: leib_def power_one_over mult.assoc)
qed

lemma leib_tendsto:
  assumes "0 \<le> x" "x \<le> 1"
  shows "leib x \<longlonglongrightarrow> 0"
proof (rule tendsto_sandwich)
  show "\<forall>\<^sub>F n in sequentially. 0 \<le> leib x n" using assms by (simp add: leib_nonneg)
  show "\<forall>\<^sub>F n in sequentially. leib x n \<le> (1 / 2) ^ n" using assms by (simp add: leib_le)
  show "(\<lambda>n. 0 :: real) \<longlonglongrightarrow> 0" by simp
  show "(\<lambda>n. (1 / 2 :: real) ^ n) \<longlonglongrightarrow> 0" by (rule LIMSEQ_power_zero) simp
qed

lemma std_normal_term_leib: "std_normal_term x n = (- 1) ^ n * leib x n"
  by (simp add: std_normal_term_def leib_def)

lemma std_normal_series_bounds:
  assumes "0 \<le> x" "x \<le> 1"
  shows "0 \<le> (\<Sum>n. std_normal_term x n)"
    and "(\<Sum>n. std_normal_term x n) \<le> x"
    and "(\<Sum>n. std_normal_term x n) \<le> x - x ^ 3 / 6 + x ^ 5 / 40"
proof -
  note L = leib_tendsto [OF assms] leib_nonneg [OF assms(1)] leib_decreasing [OF assms]
  have "(\<Sum>i<2 * 0. (- 1) ^ i * leib x i) \<le> (\<Sum>i. (- 1) ^ i * leib x i)"
    by (rule summable_Leibniz'(2) [OF L])
  then show "0 \<le> (\<Sum>n. std_normal_term x n)" by (simp add: std_normal_term_leib)
  have "(\<Sum>i. (- 1) ^ i * leib x i) \<le> (\<Sum>i<2 * 0 + 1. (- 1) ^ i * leib x i)"
    by (rule summable_Leibniz'(4) [OF L])
  then show "(\<Sum>n. std_normal_term x n) \<le> x" by (simp add: std_normal_term_leib leib_def)
  have "(\<Sum>i. (- 1) ^ i * leib x i) \<le> (\<Sum>i<2 * 1 + 1. (- 1) ^ i * leib x i)"
    by (rule summable_Leibniz'(4) [OF L])
  also have "\<dots> = leib x 0 - leib x 1 + leib x 2"
    by (simp add: lessThan_Suc numeral_3_eq_3 numeral_2_eq_2)
  also have "\<dots> = x - x ^ 3 / 6 + x ^ 5 / 40"
    by (simp add: leib_def fact_numeral)
  finally show "(\<Sum>n. std_normal_term x n) \<le> x - x ^ 3 / 6 + x ^ 5 / 40"
    by (simp add: std_normal_term_leib)
qed

lemma std_normal_cdf_le:
  assumes "0 \<le> x" "x \<le> 1" "(\<Sum>n. std_normal_term x n) \<le> b"
  shows "std_normal_cdf x \<le> 1 / 2 + b / 2.4"
proof -
  let ?s = "\<Sum>n. std_normal_term x n"
  have "?s / sqrt (2 * pi) \<le> ?s / 2.4"
    using sqrt_2pi_ge std_normal_series_bounds(1) [OF assms(1,2)]
    by (intro divide_left_mono) simp_all
  also have "\<dots> \<le> b / 2.4" using assms(3) by simp
  finally have "1 / 2 + ?s / sqrt (2 * pi) \<le> 1 / 2 + b / 2.4" by (rule add_left_mono)
  then show ?thesis unfolding std_normal_cdf_def .
qed

lemma std_normal_cdf_1_le: "std_normal_cdf 1 \<le> 0.86"
proof -
  have "(\<Sum>n. std_normal_term 1 n) \<le> 1 - 1 ^ 3 / 6 + 1 ^ 5 / 40"
    by (rule std_normal_series_bounds(3)) simp_all
  then have "(\<Sum>n. std_normal_term 1 n) \<le> 0.8584" by simp
  then have "std_normal_cdf 1 \<le> 1 / 2 + 0.8584 / 2.4"
    by (intro std_normal_cdf_le) simp_all
  also have "\<dots> \<le> (0.86 :: real)" by simp
  finally show ?thesis .
qed

lemma std_normal_cdf_035_le: "std_normal_cdf 0.35 \<le> 0.65"
proof -
  have "(\<Sum>n. std_normal_term 0.35 n) \<le> 0.35"
    by (rule std_normal_series_bounds(2)) simp_all
  then have "std_normal_cdf 0.35 \<le> 1 / 2 + 0.35 / 2.4"
    by (intro std_normal_cdf_le) simp_all
  also have "\<dots> \<le> (0.65 :: real)" by simp
  finally show ?thesis .
qed

subsection \<open>The reference function is an antiderivative of the density\<close>

lemma exp_series_real: "(\<lambda>m. y ^ m / fact m) sums exp (y :: real)"
proof -
  have "(\<lambda>m. y ^ m /\<^sub>R fact m) = (\<lambda>m. y ^ m / fact m)"
    by (rule ext) (simp add: divide_inverse)
  then show ?thesis using exp_converges [of y] by simp
qed

lemma coeff_even:
  "std_normal_coeff (2 * m) = (- 1) ^ m / (2 ^ m * fact m * real (2 * m + 1))"
  by (simp add: std_normal_coeff_def)

lemma coeff_odd: "odd k \<Longrightarrow> std_normal_coeff k = 0"
  by (simp add: std_normal_coeff_def)

lemma interleave_term:
  "(if even k then std_normal_term x (k div 2) else 0) = std_normal_coeff k * x ^ Suc k"
proof (cases "even k")
  case True
  then obtain m where k: "k = 2 * m" by (elim evenE)
  show ?thesis unfolding k by (simp add: coeff_even std_normal_term_def)
next
  case False
  then show ?thesis by (simp add: coeff_odd)
qed

lemma interleave_deriv:
  "(if even k then (- (x\<^sup>2) / 2) ^ (k div 2) / fact (k div 2) else 0)
     = std_normal_coeff k * real (Suc k) * x ^ k"
proof (cases "even k")
  case True
  then obtain m where k: "k = 2 * m" by (elim evenE)
  have "(- (x\<^sup>2 / 2)) ^ m = (- 1) ^ m * (x\<^sup>2 / 2) ^ m"
    by (rule power_minus)
  then have "(- (x\<^sup>2) / 2) ^ m = (- 1) ^ m * x ^ (2 * m) / 2 ^ m"
    by (simp add: power_mult power_divide)
  then show ?thesis unfolding k by (simp add: coeff_even)
next
  case False
  then show ?thesis by (simp add: coeff_odd)
qed

lemma std_normal_term_summable: "summable (std_normal_term x)"
proof (rule summable_comparison_test')
  show "summable (\<lambda>m. \<bar>x\<bar> * ((x\<^sup>2 / 2) ^ m / fact m))"
    using exp_series_real [of "x\<^sup>2 / 2"] by (intro summable_mult) (simp add: sums_iff)
  fix m :: nat
  have "\<bar>x\<bar> ^ (2 * m + 1) / (2 ^ m * fact m * real (2 * m + 1))
      \<le> \<bar>x\<bar> ^ (2 * m + 1) / (2 ^ m * fact m * 1)"
    by (intro divide_left_mono mult_left_mono) simp_all
  also have "\<dots> = \<bar>x\<bar> * ((x\<^sup>2 / 2) ^ m / fact m)"
    by (simp add: power_mult power_divide)
  finally show "norm (std_normal_term x m) \<le> \<bar>x\<bar> * ((x\<^sup>2 / 2) ^ m / fact m)"
    by (simp add: std_normal_term_def abs_mult power_abs)
qed

lemma std_normal_interleaved:
  "(\<lambda>k. std_normal_coeff k * x ^ Suc k) sums (\<Sum>m. std_normal_term x m)"
proof -
  have "(\<lambda>k. if even k then std_normal_term x (k div 2) else (\<lambda>_. 0) ((k - 1) div 2))
      sums (0 + (\<Sum>m. std_normal_term x m))"
    by (rule sums_if) (simp_all add: std_normal_term_summable summable_sums)
  then show ?thesis by (simp add: interleave_term)
qed

lemma std_normal_derived_series:
  "(\<lambda>k. std_normal_coeff k * real (Suc k) * x ^ k) sums exp (- (x\<^sup>2) / 2)"
proof -
  have "(\<lambda>k. if even k then (- (x\<^sup>2) / 2) ^ (k div 2) / fact (k div 2)
             else (\<lambda>_. 0) ((k - 1) div 2))
      sums (0 + exp (- (x\<^sup>2) / 2))"
    by (rule sums_if) (simp_all add: exp_series_real)
  then show ?thesis by (simp only: interleave_deriv add_0)
qed

lemma std_normal_series_deriv:
  "DERIV (\<lambda>x. \<Sum>m. std_normal_term x m) x :> exp (- (x\<^sup>2) / 2)"
proof -
  have "DERIV (\<lambda>x. \<Sum>k. std_normal_coeff k * x ^ Suc k) x
      :> (\<Sum>k. std_normal_coeff k * real (Suc k) * x ^ k)"
  proof (rule DERIV_power_series')
    show "x \<in> {- (\<bar>x\<bar> + 1) <..< \<bar>x\<bar> + 1}" by auto
    show "0 < \<bar>x\<bar> + 1" by simp
    show "summable (\<lambda>k. std_normal_coeff k * real (Suc k) * y ^ k)" for y
      using std_normal_derived_series [of y] by (simp add: sums_iff)
  qed
  moreover have "(\<lambda>x. \<Sum>k. std_normal_coeff k * x ^ Suc k) = (\<lambda>x. \<Sum>m. std_normal_term x m)"
  proof (rule ext)
    fix y :: real
    show "(\<Sum>k. std_normal_coeff k * y ^ Suc k) = (\<Sum>m. std_normal_term y m)"
      using std_normal_interleaved [of y] by (simp only: sums_iff)
  qed
  moreover have "(\<Sum>k. std_normal_coeff k * real (Suc k) * x ^ k) = exp (- (x\<^sup>2) / 2)"
    using std_normal_derived_series [of x] by (simp only: sums_iff)
  ultimately show ?thesis by (simp only:)
qed

lemma std_normal_cdf_deriv: "DERIV std_normal_cdf x :> pdf x"
proof -
  have "DERIV (\<lambda>x. 1 / 2 + (\<Sum>m. std_normal_term x m) / sqrt (2 * pi)) x
      :> 0 + exp (- (x\<^sup>2) / 2) / sqrt (2 * pi)"
    by (intro DERIV_add DERIV_const DERIV_cdivide std_normal_series_deriv)
  moreover have "std_normal_cdf = (\<lambda>x. 1 / 2 + (\<Sum>m. std_normal_term x m) / sqrt (2 * pi))"
    by (rule ext) (simp add: std_normal_cdf_def)
  moreover have "0 + exp (- (x\<^sup>2) / 2) / sqrt (2 * pi) = pdf x"
    by (simp add: pdf_def power2_eq_square)
  ultimately show ?thesis by (simp only:)
qed

lemma std_normal_cdf_0: "std_normal_cdf 0 = 1 / 2"
  by (simp add: std_normal_cdf_def std_normal_term_def)

subsection \<open>The value of the code at 1\<close>

lemma as_poly_at_1: "as_poly (1 / (1 + 0.3275911 * 1)) \<le> 0.43"
  by (simp add: as_poly_def)

lemma exp_minus_1_le: "exp (- 1 :: real) \<le> 0.4"
proof -
  have "1 + 1 + 1\<^sup>2 / 2 \<le> exp (1::real)" by (rule exp_lower_Taylor_quadratic) simp
  then have "2.5 \<le> exp (1::real)" by simp
  then have "inverse (exp (1::real)) \<le> inverse 2.5" by (intro le_imp_inverse_le) simp_all
  then show ?thesis by (simp add: exp_minus)
qed

lemma cdf_1_ge: "0.91 \<le> cdf 1"
proof -
  have "as_poly (1 / (1 + 0.3275911 * 1)) * exp (- 1 * 1 :: real) \<le> 0.43 * 0.4"
    using as_poly_at_1 exp_minus_1_le by (intro mult_mono) simp_all
  then show ?thesis by (simp add: cdf_as_y as_y_def)
qed

text \<open>
  C1. \<open>cdf\<close> does not approximate the standard normal distribution function within
  \<open>1.5e-7\<close>: at \<open>x = 1\<close> the code returns more than \<open>0.91\<close>, the distribution function is
  at most \<open>0.86\<close>. (The polynomial is the approximation of the error function, and \<open>cdf\<close>
  applies it to \<open>x\<close> where the distribution function needs \<open>x / sqrt 2\<close>.)
\<close>

theorem cdf_not_standard_normal:
  "0.91 \<le> cdf 1 \<and> std_normal_cdf 1 \<le> 0.86 \<and> \<not> \<bar>cdf 1 - std_normal_cdf 1\<bar> < 1.5 / 10 ^ 7"
  using cdf_1_ge std_normal_cdf_1_le by simp

section \<open>The concrete scenario\<close>

lemma exp_minus_upper:
  fixes x :: real
  assumes "0 \<le> x"
  shows "exp (- x) \<le> 1 / (1 + x + x\<^sup>2 / 2)"
proof -
  have "1 + x + x\<^sup>2 / 2 \<le> exp x" by (rule exp_lower_Taylor_quadratic [OF assms])
  moreover have "0 < 1 + x + x\<^sup>2 / 2" using assms by (simp add: add_pos_nonneg)
  ultimately have "inverse (exp x) \<le> inverse (1 + x + x\<^sup>2 / 2)"
    by (intro le_imp_inverse_le)
  then show ?thesis by (simp add: exp_minus inverse_eq_divide)
qed

lemma exp_minus_lower: "1 - x \<le> exp (- x :: real)"
  by (rule exp_minus_ge)

lemma as_poly_035:
  "0.7014 \<le> as_poly (1 / (1 + 0.3275911 * 0.35))"
  "as_poly (1 / (1 + 0.3275911 * 0.35)) \<le> 0.7015"
  by (simp_all add: as_poly_def)

lemma as_poly_015:
  "0.8509 \<le> as_poly (1 / (1 + 0.3275911 * 0.15))"
  "as_poly (1 / (1 + 0.3275911 * 0.15)) \<le> 0.8510"
  by (simp_all add: as_poly_def)

lemma exp_01225: "0.8775 \<le> exp (- 0.1225 :: real)" "exp (- 0.1225 :: real) \<le> 0.885"
proof -
  show "0.8775 \<le> exp (- 0.1225 :: real)" using exp_minus_lower [of "0.1225"] by simp
  show "exp (- 0.1225 :: real) \<le> 0.885"
    using exp_minus_upper [of "0.1225"] by (simp add: power2_eq_square)
qed

lemma exp_00225: "0.9775 \<le> exp (- 0.0225 :: real)" "exp (- 0.0225 :: real) \<le> 0.978"
proof -
  show "0.9775 \<le> exp (- 0.0225 :: real)" using exp_minus_lower [of "0.0225"] by simp
  show "exp (- 0.0225 :: real) \<le> 0.978"
    using exp_minus_upper [of "0.0225"] by (simp add: power2_eq_square)
qed

lemma exp_005: "0.95 \<le> exp (- 0.05 :: real)" "exp (- 0.05 :: real) \<le> 0.9513"
proof -
  show "0.95 \<le> exp (- 0.05 :: real)" using exp_minus_lower [of "0.05"] by simp
  show "exp (- 0.05 :: real) \<le> 0.9513"
    using exp_minus_upper [of "0.05"] by (simp add: power2_eq_square)
qed

lemma tail_035:
  "0.6154 \<le> as_poly (1 / (1 + 0.3275911 * 0.35)) * exp (- 0.1225)"
  "as_poly (1 / (1 + 0.3275911 * 0.35)) * exp (- 0.1225) \<le> 0.6209"
proof -
  have "0.7014 * 0.8775 \<le> as_poly (1 / (1 + 0.3275911 * 0.35)) * exp (- 0.1225)"
    using as_poly_035(1) exp_01225(1) by (intro mult_mono) simp_all
  then show "0.6154 \<le> as_poly (1 / (1 + 0.3275911 * 0.35)) * exp (- 0.1225)" by simp
  have "as_poly (1 / (1 + 0.3275911 * 0.35)) * exp (- 0.1225) \<le> 0.7015 * 0.885"
    using as_poly_035 exp_01225(2) by (intro mult_mono) simp_all
  then show "as_poly (1 / (1 + 0.3275911 * 0.35)) * exp (- 0.1225) \<le> 0.6209" by simp
qed

lemma tail_015:
  "0.8317 \<le> as_poly (1 / (1 + 0.3275911 * 0.15)) * exp (- 0.0225)"
  "as_poly (1 / (1 + 0.3275911 * 0.15)) * exp (- 0.0225) \<le> 0.8323"
proof -
  have "0.8509 * 0.9775 \<le> as_poly (1 / (1 + 0.3275911 * 0.15)) * exp (- 0.0225)"
    using as_poly_015(1) exp_00225(1) by (intro mult_mono) simp_all
  then show "0.8317 \<le> as_poly (1 / (1 + 0.3275911 * 0.15)) * exp (- 0.0225)" by simp
  have "as_poly (1 / (1 + 0.3275911 * 0.15)) * exp (- 0.0225) \<le> 0.8510 * 0.978"
    using as_poly_015 exp_00225(2) by (intro mult_mono) simp_all
  then show "as_poly (1 / (1 + 0.3275911 * 0.15)) * exp (- 0.0225) \<le> 0.8323" by simp
qed

lemma as_y_035: "0.3791 \<le> as_y 0.35" "as_y 0.35 \<le> 0.3846"
  using tail_035 by (simp_all add: as_y_def)

lemma as_y_015: "0.1677 \<le> as_y 0.15" "as_y 0.15 \<le> 0.1683"
  using tail_015 by (simp_all add: as_y_def)

lemma cdf_035: "0.6895 \<le> cdf 0.35" "cdf 0.35 \<le> 0.6923"
  using as_y_035 by (simp_all add: cdf_as_y)

lemma cdf_m035: "0.3077 \<le> cdf (- 0.35)" "cdf (- 0.35) \<le> 0.31045"
  using as_y_035 by (simp_all add: cdf_as_y)

lemma cdf_015: "0.58385 \<le> cdf 0.15" "cdf 0.15 \<le> 0.58415"
  using as_y_015 by (simp_all add: cdf_as_y)

lemma cdf_m015: "0.41585 \<le> cdf (- 0.15)" "cdf (- 0.15) \<le> 0.41615"
  using as_y_015 by (simp_all add: cdf_as_y)

lemma scenario_d1: "this_d1 (new_BlackScholes 100 100 0.05 1 0.2) = 0.35"
  by (simp add: new_BlackScholes_d1 power2_eq_square)

lemma scenario_d2: "this_d2 (new_BlackScholes 100 100 0.05 1 0.2) = 0.15"
  unfolding new_BlackScholes_d2 scenario_d1 by simp

lemma scenario_call:
  "13 < callPrice (new_BlackScholes 100 100 0.05 1 0.2)"
  "callPrice (new_BlackScholes 100 100 0.05 1 0.2) < 14"
proof -
  let ?bs = "new_BlackScholes 100 100 0.05 1 0.2"
  have c: "callPrice ?bs = 100 * cdf 0.35 - 100 * (exp (- 0.05) * cdf 0.15)"
    unfolding callPrice_def new_BlackScholes_fields scenario_d1 scenario_d2 by simp
  have up: "exp (- 0.05) * cdf 0.15 \<le> 0.9513 * 0.58415"
    using exp_005(2) cdf_015 by (intro mult_mono) simp_all
  have lo: "0.95 * 0.58385 \<le> exp (- 0.05) * cdf 0.15"
    using exp_005(1) cdf_015 by (intro mult_mono) simp_all
  show "13 < callPrice ?bs" unfolding c using cdf_035(1) up by simp
  show "callPrice ?bs < 14" unfolding c using cdf_035(2) lo by simp
qed

lemma scenario_put:
  "8 < putPrice (new_BlackScholes 100 100 0.05 1 0.2)"
  "putPrice (new_BlackScholes 100 100 0.05 1 0.2) < 9"
proof -
  let ?bs = "new_BlackScholes 100 100 0.05 1 0.2"
  have c: "putPrice ?bs = 100 * (exp (- 0.05) * cdf (- 0.15)) - 100 * cdf (- 0.35)"
    unfolding putPrice_def new_BlackScholes_fields scenario_d1 scenario_d2 by simp
  have up: "exp (- 0.05) * cdf (- 0.15) \<le> 0.9513 * 0.41615"
    using exp_005(2) cdf_m015 by (intro mult_mono) simp_all
  have lo: "0.95 * 0.41585 \<le> exp (- 0.05) * cdf (- 0.15)"
    using exp_005(1) cdf_m015 by (intro mult_mono) simp_all
  show "8 < putPrice ?bs" unfolding c using cdf_m035(2) lo by simp
  show "putPrice ?bs < 9" unfolding c using cdf_m035(1) up by simp
qed

text \<open>
  C2. At \<open>S = 100\<close>, \<open>K = 100\<close>, \<open>r = 0.05\<close>, \<open>T = 1\<close>, \<open>sigma = 0.2\<close> the code computes
  \<open>d1 = 0.35\<close> and \<open>d2 = 0.15\<close>, but \<open>deltaCall\<close> is about \<open>0.69\<close> (not \<open>0.6368\<close>),
  \<open>callPrice\<close> lies between 13 and 14 (not \<open>10.45\<close>) and \<open>putPrice\<close> between 8 and 9 (not
  \<open>5.57\<close>); the standard normal distribution function at \<open>d1\<close> is at most \<open>0.65\<close>.
\<close>

theorem canonical_scenario:
  "this_d1 (new_BlackScholes 100 100 0.05 1 0.2) = 0.35
   \<and> this_d2 (new_BlackScholes 100 100 0.05 1 0.2) = 0.15
   \<and> 0.6895 \<le> deltaCall (new_BlackScholes 100 100 0.05 1 0.2)
   \<and> deltaCall (new_BlackScholes 100 100 0.05 1 0.2) \<le> 0.6923
   \<and> 13 < callPrice (new_BlackScholes 100 100 0.05 1 0.2)
   \<and> callPrice (new_BlackScholes 100 100 0.05 1 0.2) < 14
   \<and> 8 < putPrice (new_BlackScholes 100 100 0.05 1 0.2)
   \<and> putPrice (new_BlackScholes 100 100 0.05 1 0.2) < 9
   \<and> std_normal_cdf 0.35 \<le> 0.65"
proof -
  have "deltaCall (new_BlackScholes 100 100 0.05 1 0.2) = cdf 0.35"
    unfolding deltaCall_def scenario_d1 by (rule refl)
  then show ?thesis
    by (intro conjI scenario_d1 scenario_d2 scenario_call scenario_put std_normal_cdf_035_le)
      (simp_all only: cdf_035)
qed

section \<open>Rounding\<close>

subsection \<open>Exponents and the grid of doubles\<close>

lemma two_powi_mono: "j \<le> k \<Longrightarrow> (2::real) powi j \<le> 2 powi k"
  by (rule power_int_increasing) simp_all

lemma two_powi_strict_mono: "j < k \<Longrightarrow> (2::real) powi j < 2 powi k"
  by (rule power_int_strict_increasing) simp_all

lemma two_powi_pos: "0 < (2::real) powi k"
  by simp

lemma two_powi_split: "(2::real) powi (j + k) = 2 powi j * 2 powi k"
  by (rule power_int_add) simp

lemma two_powi_diff: "(2::real) powi (j - k) = 2 powi j / 2 powi k"
  by (rule power_int_diff) simp

lemma two_powi_int: "0 \<le> n \<Longrightarrow> (2::real) powi n = of_int (2 ^ nat n)"
  by (simp add: power_int_nonneg_exp)

lemma two_powr_int: "(2::real) powr real_of_int k = 2 powi k"
  by (rule powr_real_of_int') simp_all

lemma floor_log2_bounds:
  assumes "0 < x"
  shows "2 powi \<lfloor>log 2 x\<rfloor> \<le> x" and "x < 2 powi (\<lfloor>log 2 x\<rfloor> + 1)"
proof -
  have "\<lfloor>log 2 x\<rfloor> = \<lfloor>log 2 x\<rfloor>" by (rule refl)
  then have "2 powr real_of_int \<lfloor>log 2 x\<rfloor> \<le> x \<and> x < 2 powr real_of_int (\<lfloor>log 2 x\<rfloor> + 1)"
    by (rule iffD1 [OF floor_log_eq_powr_iff [of x 2], rotated 2]) (use assms in simp_all)
  then show "2 powi \<lfloor>log 2 x\<rfloor> \<le> x" and "x < 2 powi (\<lfloor>log 2 x\<rfloor> + 1)"
    unfolding two_powr_int by simp_all
qed

lemma expo_ge: "- 1022 \<le> expo v"
  by (simp add: expo_def)

lemma expo_upper:
  assumes "v \<noteq> 0"
  shows "\<bar>v\<bar> < 2 powi (expo v + 1)"
proof -
  have "\<bar>v\<bar> < 2 powi (\<lfloor>log 2 \<bar>v\<bar>\<rfloor> + 1)"
    using floor_log2_bounds(2) [of "\<bar>v\<bar>"] assms by simp
  also have "\<dots> \<le> 2 powi (expo v + 1)"
    by (rule two_powi_mono) (simp add: expo_def)
  finally show ?thesis .
qed

lemma expo_lower:
  assumes "v \<noteq> 0" "- 1022 < expo v"
  shows "2 powi (expo v) \<le> \<bar>v\<bar>"
proof -
  from assms(2) have "expo v = \<lfloor>log 2 \<bar>v\<bar>\<rfloor>" by (simp add: expo_def max_def split: if_splits)
  then show ?thesis using floor_log2_bounds(1) [of "\<bar>v\<bar>"] assms(1) by simp
qed

lemma expo_eqI:
  assumes "2 powi e \<le> \<bar>v\<bar>" "\<bar>v\<bar> < 2 powi (e + 1)" "- 1022 \<le> e"
  shows "expo v = e"
proof -
  have pos: "0 < \<bar>v\<bar>" using assms(1) two_powi_pos [of e] by linarith
  have "2 powr real_of_int e \<le> \<bar>v\<bar> \<and> \<bar>v\<bar> < 2 powr real_of_int (e + 1)"
    unfolding two_powr_int using assms(1,2) by simp
  then have "\<lfloor>log 2 \<bar>v\<bar>\<rfloor> = e"
    by (rule iffD2 [OF floor_log_eq_powr_iff [of "\<bar>v\<bar>" 2], rotated 2]) (use pos in simp_all)
  then show ?thesis using assms(3) by (simp add: expo_def)
qed

lemma expo_subnormal:
  assumes "\<bar>v\<bar> < 2 powi (- 1022)" "v \<noteq> 0"
  shows "expo v = - 1022"
proof (rule ccontr)
  assume "expo v \<noteq> - 1022"
  then have gt: "- 1022 < expo v" using expo_ge [of v] by linarith
  have "2 powi (- 1022) \<le> (2::real) powi (expo v)" using gt by (intro two_powi_mono) simp
  also have "\<dots> \<le> \<bar>v\<bar>" by (rule expo_lower [OF assms(2) gt])
  finally show False using assms(1) by simp
qed

lemma ulp_pos: "0 < ulp v"
  by (simp add: ulp_def)

lemma expo_uminus: "expo (- v) = expo v"
  by (simp add: expo_def)

lemma ulp_uminus: "ulp (- v) = ulp v"
  by (simp add: ulp_def expo_uminus)

lemma round_even_cases: "round_even m = \<lfloor>m\<rfloor> \<or> round_even m = \<lceil>m\<rceil>"
  by (simp add: round_even_def)

lemma round_even_eqI:
  assumes "\<bar>m - of_int n\<bar> < 1 / 2"
  shows "round_even m = n"
proof -
  consider "of_int n \<le> m" | "m < of_int n" by linarith
  then show ?thesis
  proof cases
    case 1
    then have f: "\<lfloor>m\<rfloor> = n" using assms by (intro floor_unique) (simp_all add: abs_if split: if_splits)
    then show ?thesis using assms 1 by (simp add: round_even_def)
  next
    case 2
    then have c: "\<lceil>m\<rceil> = n" using assms by (intro ceiling_unique) (simp_all add: abs_if split: if_splits)
    have "m \<noteq> of_int n" using 2 by simp
    then have "m \<notin> \<int>" using c by (metis Ints_cases of_int_ceiling)
    then have f: "\<lfloor>m\<rfloor> = n - 1" using c by (simp add: ceiling_altdef split: if_splits)
    then show ?thesis using assms 2 c by (simp add: round_even_def abs_if split: if_splits)
  qed
qed

lemma fl_faithful: "faithful_val v (fl v)"
  using round_even_cases [of "v / ulp v"]
  by (auto simp: faithful_val_def fl_def fl_down_def fl_up_def)

lemma fl_eqI:
  assumes "2 powi e \<le> \<bar>v\<bar>" "\<bar>v\<bar> < 2 powi (e + 1)" "- 1022 \<le> e"
    and "\<bar>v / 2 powi (e - 52) - of_int n\<bar> < 1 / 2"
  shows "fl v = of_int n * 2 powi (e - 52)"
proof -
  have "expo v = e" by (rule expo_eqI [OF assms(1-3)])
  then have u: "ulp v = 2 powi (e - 52)" by (simp add: ulp_def)
  show ?thesis unfolding fl_def u by (simp add: round_even_eqI [OF assms(4)])
qed

subsection \<open>Rounding preserves bounds by powers of two\<close>

lemma grid_int_le:
  fixes w N :: int and m :: real
  assumes "w = \<lfloor>m\<rfloor> \<or> w = \<lceil>m\<rceil>" "m \<le> of_int N"
  shows "w \<le> N"
  using assms by (auto simp: floor_le_iff ceiling_le_iff intro: order_trans [OF of_int_floor_le])

lemma grid_int_ge:
  fixes w N :: int and m :: real
  assumes "w = \<lfloor>m\<rfloor> \<or> w = \<lceil>m\<rceil>" "of_int N \<le> m"
  shows "N \<le> w"
  using assms by (auto simp: le_floor_iff le_ceiling_iff intro: order_trans [OF _ le_of_int_ceiling])

lemma faithful_val_int:
  assumes "faithful_val v w"
  obtains n :: int where "w = of_int n * ulp v" "n = \<lfloor>v / ulp v\<rfloor> \<or> n = \<lceil>v / ulp v\<rceil>"
  using assms by (auto simp: faithful_val_def fl_down_def fl_up_def)

lemma faithful_val_le_grid:
  assumes "faithful_val v w" "v \<le> of_int N * ulp v"
  shows "w \<le> of_int N * ulp v"
proof -
  from assms(1) obtain n :: int where n: "w = of_int n * ulp v"
    "n = \<lfloor>v / ulp v\<rfloor> \<or> n = \<lceil>v / ulp v\<rceil>" by (rule faithful_val_int)
  have "v / ulp v \<le> of_int N" using assms(2) ulp_pos [of v] by (simp add: field_simps)
  then have "n \<le> N" by (rule grid_int_le [OF n(2)])
  then show ?thesis unfolding n(1) using ulp_pos [of v] by simp
qed

lemma faithful_val_ge_grid:
  assumes "faithful_val v w" "of_int N * ulp v \<le> v"
  shows "of_int N * ulp v \<le> w"
proof -
  from assms(1) obtain n :: int where n: "w = of_int n * ulp v"
    "n = \<lfloor>v / ulp v\<rfloor> \<or> n = \<lceil>v / ulp v\<rceil>" by (rule faithful_val_int)
  have "of_int N \<le> v / ulp v" using assms(2) ulp_pos [of v] by (simp add: field_simps)
  then have "N \<le> n" by (rule grid_int_ge [OF n(2)])
  then show ?thesis unfolding n(1) using ulp_pos [of v] by simp
qed

lemma faithful_val_nonneg: "faithful_val v w \<Longrightarrow> 0 \<le> v \<Longrightarrow> 0 \<le> w"
  using faithful_val_ge_grid [of v w 0] by simp

lemma faithful_val_nonpos: "faithful_val v w \<Longrightarrow> v \<le> 0 \<Longrightarrow> w \<le> 0"
  using faithful_val_le_grid [of v w 0] by simp

lemma pow2_on_grid:
  assumes "expo v - 52 \<le> k"
  shows "2 powi k = of_int (2 ^ nat (k - (expo v - 52))) * ulp v"
proof -
  have "(2::real) powi k = 2 powi ((k - (expo v - 52)) + (expo v - 52))" by simp
  also have "\<dots> = 2 powi (k - (expo v - 52)) * 2 powi (expo v - 52)" by (rule two_powi_split)
  also have "2 powi (k - (expo v - 52)) = (of_int (2 ^ nat (k - (expo v - 52))) :: real)"
    using assms by (intro two_powi_int) simp
  finally show ?thesis by (simp add: ulp_def)
qed

lemma faithful_val_le_pow2:
  assumes "faithful_val v w" "v \<le> 2 powi k" "- 1074 \<le> k"
  shows "w \<le> 2 powi k"
proof (cases "v \<le> 0")
  case True
  then have "w \<le> 0" by (rule faithful_val_nonpos [OF assms(1)])
  then show ?thesis using two_powi_pos [of k] by linarith
next
  case False
  then have v: "0 < v" "v \<noteq> 0" by simp_all
  have grid: "expo v - 52 \<le> k"
  proof (rule ccontr)
    assume "\<not> expo v - 52 \<le> k"
    then have lt: "k < expo v - 52" by simp
    with assms(3) have "- 1022 < expo v" by linarith
    then have "2 powi (expo v) \<le> \<bar>v\<bar>" by (rule expo_lower [OF v(2)])
    moreover have "(2::real) powi k < 2 powi (expo v)" using lt by (intro two_powi_strict_mono) linarith
    ultimately show False using assms(2) v(1) by simp
  qed
  show ?thesis
    using faithful_val_le_grid [OF assms(1), of "2 ^ nat (k - (expo v - 52))"] assms(2)
    unfolding pow2_on_grid [OF grid, symmetric] by simp
qed

lemma faithful_val_ge_pow2:
  assumes "faithful_val v w" "2 powi k \<le> v" "- 1074 \<le> k"
  shows "2 powi k \<le> w"
proof -
  have v: "0 < v" "v \<noteq> 0" using assms(2) two_powi_pos [of k] by linarith+
  show ?thesis
  proof (cases "expo v - 52 \<le> k")
    case True
    show ?thesis
      using faithful_val_ge_grid [OF assms(1), of "2 ^ nat (k - (expo v - 52))"] assms(2)
      unfolding pow2_on_grid [OF True, symmetric] by simp
  next
    case False
    then have lt: "k < expo v - 52" by simp
    with assms(3) have "- 1022 < expo v" by linarith
    then have lo: "2 powi (expo v) \<le> v" using expo_lower [OF v(2)] v(1) by simp
    have g: "expo v - 52 \<le> expo v" by simp
    have "2 powi (expo v) \<le> w"
      using faithful_val_ge_grid [OF assms(1), of "2 ^ nat (expo v - (expo v - 52))"] lo
      unfolding pow2_on_grid [OF g, symmetric] by simp
    moreover have "(2::real) powi k \<le> 2 powi (expo v)" using lt by (intro two_powi_mono) linarith
    ultimately show ?thesis by linarith
  qed
qed

lemma faithful_val_uminus: "faithful_val v w \<Longrightarrow> faithful_val (- v) (- w)"
  by (auto simp: faithful_val_def fl_down_def fl_up_def ulp_uminus ceiling_def)

lemma faithful_val_abs_le_pow2:
  assumes "faithful_val v w" "\<bar>v\<bar> \<le> 2 powi k" "- 1074 \<le> k"
  shows "\<bar>w\<bar> \<le> 2 powi k"
proof -
  have "w \<le> 2 powi k"
    using faithful_val_le_pow2 [OF assms(1) _ assms(3)] assms(2) by simp
  moreover have "- w \<le> 2 powi k"
    using faithful_val_le_pow2 [OF faithful_val_uminus [OF assms(1)] _ assms(3)] assms(2) by simp
  ultimately show ?thesis by simp
qed

subsection \<open>Results of known value\<close>

lemma to_double_val:
  assumes "c = of_int n * 2 powi (e - 52)"
    and "2 powi e \<le> \<bar>v\<bar>" "\<bar>v\<bar> < 2 powi (e + 1)" "- 1022 \<le> e" "e \<le> 1022"
    and "\<bar>v / 2 powi (e - 52) - of_int n\<bar> < 1 / 2"
  shows "to_double v = Fin c"
proof -
  have c: "fl v = c" unfolding assms(1) by (rule fl_eqI [OF assms(2-4,6)])
  have "\<bar>v\<bar> \<le> 2 powi (e + 1)" using assms(3) by simp
  then have "\<bar>fl v\<bar> \<le> 2 powi (e + 1)"
    using assms(4) by (intro faithful_val_abs_le_pow2 [OF fl_faithful]) simp_all
  also have "\<dots> \<le> 2 powi 1023" using assms(5) by (intro two_powi_mono) simp
  also have "\<dots> < (2::real) ^ 1024" by simp
  finally have "\<bar>fl v\<bar> < 2 ^ 1024" .
  then show ?thesis unfolding to_double_def range_of_def c [symmetric] by (simp add: abs_if split: if_splits)
qed

lemma two_powi_le_pos: "2 powi j \<le> (v::real) \<Longrightarrow> 0 < v"
  by (rule less_le_trans [OF two_powi_pos])

lemma range_of_Fin: "\<bar>w\<bar> \<le> 2 powi k \<Longrightarrow> k \<le> 1023 \<Longrightarrow> range_of w = Fin w"
proof -
  assume a: "\<bar>w\<bar> \<le> 2 powi k" "k \<le> 1023"
  have "2 powi k \<le> (2::real) powi 1023" using a(2) by (intro two_powi_mono) simp
  also have "\<dots> < (2::real) ^ 1024" by simp
  finally have "\<bar>w\<bar> < 2 ^ 1024" using a(1) by simp
  then show ?thesis unfolding range_of_def by (simp add: abs_if split: if_splits)
qed

lemma to_double_Fin:
  assumes "\<bar>v\<bar> \<le> 2 powi k" "- 1074 \<le> k" "k \<le> 1023"
  shows "to_double v = Fin (fl v)" "\<bar>fl v\<bar> \<le> 2 powi k"
proof -
  show b: "\<bar>fl v\<bar> \<le> 2 powi k"
    by (rule faithful_val_abs_le_pow2 [OF fl_faithful assms(1,2)])
  show "to_double v = Fin (fl v)"
    unfolding to_double_def by (rule range_of_Fin [OF b assms(3)])
qed

lemma round_even_tieI:
  assumes "\<bar>m - of_int n\<bar> = 1 / 2" "even n"
  shows "round_even m = n"
proof -
  consider "m = of_int n + 1 / 2" | "m = of_int n - 1 / 2" using assms(1) by (auto simp: abs_if split: if_splits)
  then show ?thesis
  proof cases
    case 1
    then have f: "\<lfloor>m\<rfloor> = n" by (intro floor_unique) simp_all
    show ?thesis unfolding round_even_def f using 1 assms(2) by simp
  next
    case 2
    then have f: "\<lfloor>m\<rfloor> = n - 1" by (intro floor_unique) simp_all
    have c: "\<lceil>m\<rceil> = n" using 2 by (intro ceiling_unique) simp_all
    show ?thesis unfolding round_even_def f c using 2 assms(2) by simp
  qed
qed

lemma fl_tieI:
  assumes "2 powi e \<le> \<bar>v\<bar>" "\<bar>v\<bar> < 2 powi (e + 1)" "- 1022 \<le> e"
    and "\<bar>v / 2 powi (e - 52) - of_int n\<bar> = 1 / 2" "even n"
  shows "fl v = of_int n * 2 powi (e - 52)"
proof -
  have "expo v = e" by (rule expo_eqI [OF assms(1-3)])
  then have u: "ulp v = 2 powi (e - 52)" by (simp add: ulp_def)
  show ?thesis unfolding fl_def u by (simp add: round_even_tieI [OF assms(4,5)])
qed

lemma to_double_fl:
  assumes "fl v = c" "\<bar>v\<bar> < 2 powi (e + 1)" "- 1022 \<le> e" "e \<le> 1022"
  shows "to_double v = Fin c"
proof -
  have "\<bar>v\<bar> \<le> 2 powi (e + 1)" using assms(2) by simp
  then have "\<bar>fl v\<bar> \<le> 2 powi (e + 1)"
    using assms(3) by (intro faithful_val_abs_le_pow2 [OF fl_faithful]) simp_all
  moreover have "e + 1 \<le> 1023" using assms(4) by linarith
  ultimately have "range_of (fl v) = Fin (fl v)" by (rule range_of_Fin)
  then show ?thesis unfolding to_double_def assms(1) .
qed

lemma to_double_tie:
  assumes "c = of_int n * 2 powi (e - 52)"
    and "2 powi e \<le> \<bar>v\<bar>" "\<bar>v\<bar> < 2 powi (e + 1)" "- 1022 \<le> e" "e \<le> 1022"
    and "\<bar>v / 2 powi (e - 52) - of_int n\<bar> = 1 / 2" "even n"
  shows "to_double v = Fin c"
  unfolding assms(1) by (rule to_double_fl [OF fl_tieI [OF assms(2-4,6,7)] assms(3-5)])

lemma to_double_overflow: "2 ^ 1024 \<le> v \<Longrightarrow> to_double v = PosInf"
proof -
  assume "2 ^ 1024 \<le> v"
  then have "2 powi 1024 \<le> v" by simp
  then have "2 powi 1024 \<le> fl v" by (rule faithful_val_ge_pow2 [OF fl_faithful]) simp
  then have "2 ^ 1024 \<le> fl v" by simp
  then show ?thesis unfolding to_double_def range_of_def by simp
qed

lemma to_double_exact:
  assumes "v = of_int n * 2 powi (e - 52)" "2 powi e \<le> \<bar>v\<bar>" "\<bar>v\<bar> < 2 powi (e + 1)"
    "- 1022 \<le> e" "e \<le> 1022"
  shows "to_double v = Fin v"
proof (rule to_double_val [OF assms(1,2,3,4,5)])
  have "v / 2 powi (e - 52) = of_int n" unfolding assms(1) by simp
  then show "\<bar>v / 2 powi (e - 52) - of_int n\<bar> < 1 / 2" by simp
qed

lemma fl_0: "fl 0 = 0"
  unfolding fl_def round_even_def by simp

lemma to_double_0: "to_double 0 = Fin 0"
  unfolding to_double_def range_of_def fl_0 by simp

lemma js_mul_val:
  assumes "c = of_int n * 2 powi (e - 52)"
    and "2 powi e \<le> \<bar>a * b\<bar>" "\<bar>a * b\<bar> < 2 powi (e + 1)" "- 1022 \<le> e" "e \<le> 1022"
    and "\<bar>a * b / 2 powi (e - 52) - of_int n\<bar> < 1 / 2"
  shows "js_mul (Fin a) (Fin b) = Fin c"
  unfolding js_mul.simps by (rule to_double_val [OF assms])

lemma js_add_val:
  assumes "c = of_int n * 2 powi (e - 52)"
    and "2 powi e \<le> \<bar>a + b\<bar>" "\<bar>a + b\<bar> < 2 powi (e + 1)" "- 1022 \<le> e" "e \<le> 1022"
    and "\<bar>(a + b) / 2 powi (e - 52) - of_int n\<bar> < 1 / 2"
  shows "js_add (Fin a) (Fin b) = Fin c"
  unfolding js_add.simps by (rule to_double_val [OF assms])

lemma js_add_tie:
  assumes "c = of_int n * 2 powi (e - 52)"
    and "2 powi e \<le> \<bar>a + b\<bar>" "\<bar>a + b\<bar> < 2 powi (e + 1)" "- 1022 \<le> e" "e \<le> 1022"
    and "\<bar>(a + b) / 2 powi (e - 52) - of_int n\<bar> = 1 / 2" "even n"
  shows "js_add (Fin a) (Fin b) = Fin c"
  unfolding js_add.simps by (rule to_double_tie [OF assms])

lemma js_sub_val:
  assumes "c = of_int n * 2 powi (e - 52)"
    and "2 powi e \<le> \<bar>a - b\<bar>" "\<bar>a - b\<bar> < 2 powi (e + 1)" "- 1022 \<le> e" "e \<le> 1022"
    and "\<bar>(a - b) / 2 powi (e - 52) - of_int n\<bar> < 1 / 2"
  shows "js_sub (Fin a) (Fin b) = Fin c"
  unfolding js_sub_def js_neg.simps js_add.simps using to_double_val [OF assms] by simp

lemma js_sub_tie:
  assumes "c = of_int n * 2 powi (e - 52)"
    and "2 powi e \<le> \<bar>a - b\<bar>" "\<bar>a - b\<bar> < 2 powi (e + 1)" "- 1022 \<le> e" "e \<le> 1022"
    and "\<bar>(a - b) / 2 powi (e - 52) - of_int n\<bar> = 1 / 2" "even n"
  shows "js_sub (Fin a) (Fin b) = Fin c"
  unfolding js_sub_def js_neg.simps js_add.simps using to_double_tie [OF assms] by simp

lemma js_div_val:
  assumes "c = of_int n * 2 powi (e - 52)"
    and "2 powi e \<le> \<bar>a / b\<bar>" "\<bar>a / b\<bar> < 2 powi (e + 1)" "- 1022 \<le> e" "e \<le> 1022"
    and "\<bar>a / b / 2 powi (e - 52) - of_int n\<bar> < 1 / 2"
  shows "js_div (Fin a) (Fin b) = Fin c"
proof -
  have "0 < \<bar>a / b\<bar>" by (rule two_powi_le_pos [OF assms(2)])
  then have "b \<noteq> 0" by auto
  then show ?thesis using to_double_val [OF assms] by simp
qed

subsection \<open>Magnitudes of the results of the operators\<close>

lemma mag_to_double:
  "\<bar>v\<bar> \<le> 2 powi k \<Longrightarrow> - 1074 \<le> k \<Longrightarrow> k \<le> 1023 \<Longrightarrow> mag k (to_double v)"
  unfolding mag_def using to_double_Fin by blast

lemma pos_to_double:
  assumes "2 powi j \<le> v" "v \<le> 2 powi k" "- 1074 \<le> j" "k \<le> 1023"
  shows "pos j k (to_double v)"
proof -
  have jk: "(2::real) powi j \<le> 2 powi k" using assms(1,2) by simp
  have "j \<le> k"
  proof (rule ccontr)
    assume "\<not> j \<le> k"
    then have "(2::real) powi k < 2 powi j" by (intro two_powi_strict_mono) simp
    with jk show False by simp
  qed
  then have k: "- 1074 \<le> k" using assms(3) by simp
  have v0: "0 \<le> v" using two_powi_le_pos [OF assms(1)] by simp
  then have av: "\<bar>v\<bar> \<le> 2 powi k" using assms(2) by simp
  have f: "to_double v = Fin (fl v)" by (rule to_double_Fin(1) [OF av k assms(4)])
  have lo: "2 powi j \<le> fl v" by (rule faithful_val_ge_pow2 [OF fl_faithful assms(1,3)])
  have hi: "fl v \<le> 2 powi k" by (rule faithful_val_le_pow2 [OF fl_faithful assms(2) k])
  show ?thesis unfolding pos_def using f lo hi by blast
qed

lemma mag_mono: "mag j x \<Longrightarrow> j \<le> k \<Longrightarrow> mag k x"
  unfolding mag_def using two_powi_mono [of j k] by fastforce

lemma pos_mag: "pos j k x \<Longrightarrow> mag k x"
  unfolding pos_def mag_def using two_powi_le_pos by fastforce

lemma mag_isFinite: "mag k x \<Longrightarrow> isFinite x"
  unfolding mag_def isFinite_def by auto

lemma mag_neg: "mag k x \<Longrightarrow> mag k (js_neg x)"
  unfolding mag_def by auto

lemma mag_abs: "mag k x \<Longrightarrow> mag k (js_abs x)"
  unfolding mag_def by auto

lemma mag_mul:
  assumes "mag j a" "mag k b" "- 1074 \<le> j + k" "j + k \<le> 1023"
  shows "mag (j + k) (js_mul a b)"
proof -
  obtain u where u: "a = Fin u" "\<bar>u\<bar> \<le> 2 powi j" using assms(1) unfolding mag_def by blast
  obtain w where w: "b = Fin w" "\<bar>w\<bar> \<le> 2 powi k" using assms(2) unfolding mag_def by blast
  have "\<bar>u * w\<bar> = \<bar>u\<bar> * \<bar>w\<bar>" by (simp add: abs_mult)
  also have "\<dots> \<le> 2 powi j * 2 powi k" using u(2) w(2) by (intro mult_mono) simp_all
  also have "\<dots> = 2 powi (j + k)" by (simp add: two_powi_split)
  finally have "\<bar>u * w\<bar> \<le> 2 powi (j + k)" .
  then show ?thesis unfolding u(1) w(1) js_mul.simps by (rule mag_to_double [OF _ assms(3,4)])
qed

lemma mag_add:
  assumes "mag j a" "mag k b" "j \<le> m" "k \<le> m" "- 1075 \<le> m" "m \<le> 1022"
  shows "mag (m + 1) (js_add a b)"
proof -
  obtain u where u: "a = Fin u" "\<bar>u\<bar> \<le> 2 powi j" using assms(1) unfolding mag_def by blast
  obtain w where w: "b = Fin w" "\<bar>w\<bar> \<le> 2 powi k" using assms(2) unfolding mag_def by blast
  have uj: "\<bar>u\<bar> \<le> 2 powi m" using u(2) two_powi_mono [OF assms(3)] by simp
  have wj: "\<bar>w\<bar> \<le> 2 powi m" using w(2) two_powi_mono [OF assms(4)] by simp
  have "\<bar>u + w\<bar> \<le> 2 powi m + 2 powi m" using uj wj by simp
  also have "\<dots> = 2 powi (m + 1)" by (simp add: two_powi_split)
  finally have "\<bar>u + w\<bar> \<le> 2 powi (m + 1)" .
  then show ?thesis unfolding u(1) w(1) js_add.simps
    using assms(5,6) by (intro mag_to_double) simp_all
qed

lemma mag_sub:
  assumes "mag j a" "mag k b" "j \<le> m" "k \<le> m" "- 1075 \<le> m" "m \<le> 1022"
  shows "mag (m + 1) (js_sub a b)"
  unfolding js_sub_def by (rule mag_add [OF assms(1) mag_neg [OF assms(2)] assms(3-6)])

lemma pos_mul:
  assumes "pos j k a" "pos j' k' b" "- 1074 \<le> j + j'" "k + k' \<le> 1023"
  shows "pos (j + j') (k + k') (js_mul a b)"
proof -
  obtain u where u: "a = Fin u" "2 powi j \<le> u" "u \<le> 2 powi k"
    using assms(1) unfolding pos_def by blast
  obtain w where w: "b = Fin w" "2 powi j' \<le> w" "w \<le> 2 powi k'"
    using assms(2) unfolding pos_def by blast
  have u0: "0 \<le> u" using two_powi_le_pos [OF u(2)] by simp
  have w0: "0 \<le> w" using two_powi_le_pos [OF w(2)] by simp
  have "2 powi (j + j') = 2 powi j * (2::real) powi j'" by (simp add: two_powi_split)
  also have "\<dots> \<le> u * w" using u(2) w(2) u0 w0
    by (intro mult_mono) simp_all
  finally have lo: "2 powi (j + j') \<le> u * w" .
  have "u * w \<le> 2 powi k * 2 powi k'" using u(3) w(3) u0 w0 two_powi_pos [of k]
    by (intro mult_mono) simp_all
  also have "\<dots> = 2 powi (k + k')" by (simp add: two_powi_split)
  finally have hi: "u * w \<le> 2 powi (k + k')" .
  show ?thesis unfolding u(1) w(1) js_mul.simps by (rule pos_to_double [OF lo hi assms(3,4)])
qed

lemma mag_div:
  assumes "mag j a" "pos l k b" "- 1074 \<le> j - l" "j - l \<le> 1023"
  shows "mag (j - l) (js_div a b)"
proof -
  obtain u where u: "a = Fin u" "\<bar>u\<bar> \<le> 2 powi j" using assms(1) unfolding mag_def by blast
  obtain w where w: "b = Fin w" "2 powi l \<le> w" "w \<le> 2 powi k"
    using assms(2) unfolding pos_def by blast
  have w0: "0 < w" using two_powi_le_pos [OF w(2)] by simp
  have "\<bar>u / w\<bar> = \<bar>u\<bar> / w" using w0 by simp
  also have "\<dots> \<le> 2 powi j / 2 powi l"
    using u(2) w(2) two_powi_pos [of l] by (intro frac_le) simp_all
  also have "\<dots> = 2 powi (j - l)" by (simp add: two_powi_diff)
  finally have "\<bar>u / w\<bar> \<le> 2 powi (j - l)" .
  then have "mag (j - l) (to_double (u / w))" by (rule mag_to_double [OF _ assms(3,4)])
  then show ?thesis unfolding u(1) w(1) using w0 by simp
qed

lemma pos_div:
  assumes "pos j k a" "pos j' k' b" "- 1074 \<le> j - k'" "k - j' \<le> 1023"
  shows "pos (j - k') (k - j') (js_div a b)"
proof -
  obtain u where u: "a = Fin u" "2 powi j \<le> u" "u \<le> 2 powi k"
    using assms(1) unfolding pos_def by blast
  obtain w where w: "b = Fin w" "2 powi j' \<le> w" "w \<le> 2 powi k'"
    using assms(2) unfolding pos_def by blast
  have u0: "0 \<le> u" using two_powi_le_pos [OF u(2)] by simp
  have w0: "0 < w" using two_powi_le_pos [OF w(2)] by simp
  have "2 powi (j - k') = 2 powi j / (2::real) powi k'" by (simp add: two_powi_diff)
  also have "\<dots> \<le> u / w" using u(2) w(3) w0 u0
    by (intro frac_le) simp_all
  finally have lo: "2 powi (j - k') \<le> u / w" .
  have "u / w \<le> 2 powi k / 2 powi j'" using u(3) w(2) u0 two_powi_pos [of j']
    by (intro frac_le) simp_all
  also have "\<dots> = 2 powi (k - j')" by (simp add: two_powi_diff)
  finally have hi: "u / w \<le> 2 powi (k - j')" .
  have "pos (j - k') (k - j') (to_double (u / w))" by (rule pos_to_double [OF lo hi assms(3,4)])
  then show ?thesis unfolding u(1) w(1) using w0 by simp
qed

lemma pos_sqrt:
  assumes "pos (2 * j) (2 * k) a" "- 1074 \<le> j"
  shows "pos j k (js_sqrt a)"
proof -
  obtain u where u: "a = Fin u" "2 powi (2 * j) \<le> u" "u \<le> 2 powi (2 * k)"
    using assms(1) unfolding pos_def by blast
  have u0: "0 \<le> u" using two_powi_le_pos [OF u(2)] by simp
  have sq: "(2::real) powi (2 * i) = (2 powi i)\<^sup>2" for i
    using two_powi_split [of i i] by (simp add: power2_eq_square)
  have "2 powi j = sqrt ((2 powi j)\<^sup>2)" using two_powi_pos [of j] by simp
  also have "\<dots> \<le> sqrt u" using u(2) unfolding sq by (intro real_sqrt_le_mono)
  finally have lo: "2 powi j \<le> sqrt u" .
  have "sqrt u \<le> sqrt ((2 powi k)\<^sup>2)" using u(3) unfolding sq by (intro real_sqrt_le_mono)
  also have "\<dots> = 2 powi k" using two_powi_pos [of k] by simp
  finally have hi: "sqrt u \<le> 2 powi k" .
  have jk: "(2::real) powi j \<le> 2 powi k" using lo hi by simp
  have "j \<le> k"
  proof (rule ccontr)
    assume "\<not> j \<le> k"
    then have "(2::real) powi k < 2 powi j" by (intro two_powi_strict_mono) simp
    with jk show False by simp
  qed
  then have k: "- 1074 \<le> k" using assms(2) by simp
  have a: "2 powi j \<le> fl (sqrt u)" by (rule faithful_val_ge_pow2 [OF fl_faithful lo assms(2)])
  have b: "fl (sqrt u) \<le> 2 powi k" by (rule faithful_val_le_pow2 [OF fl_faithful hi k])
  show ?thesis unfolding pos_def u(1) using u0 a b by simp
qed

lemma nneg_to_double:
  assumes "0 \<le> v" "v \<le> 2 powi k" "- 1074 \<le> k" "k \<le> 1023"
  shows "nneg k (to_double v)"
proof -
  have av: "\<bar>v\<bar> \<le> 2 powi k" using assms(1,2) by simp
  have "to_double v = Fin (fl v)" by (rule to_double_Fin(1) [OF av assms(3,4)])
  moreover have "0 \<le> fl v" by (rule faithful_val_nonneg [OF fl_faithful assms(1)])
  moreover have "fl v \<le> 2 powi k" by (rule faithful_val_le_pow2 [OF fl_faithful assms(2,3)])
  ultimately show ?thesis unfolding nneg_def by blast
qed

lemma pos_nneg: "pos j k x \<Longrightarrow> nneg k x"
  unfolding pos_def nneg_def using two_powi_le_pos by fastforce

lemma nneg_mag: "nneg k x \<Longrightarrow> mag k x"
  unfolding nneg_def mag_def by fastforce

lemma nneg_abs: "mag k x \<Longrightarrow> nneg k (js_abs x)"
  unfolding nneg_def mag_def by auto

lemma pos_mono: "pos j k x \<Longrightarrow> j' \<le> j \<Longrightarrow> k \<le> k' \<Longrightarrow> pos j' k' x"
proof -
  assume a: "pos j k x" "j' \<le> j" "k \<le> k'"
  obtain w where w: "x = Fin w" "2 powi j \<le> w" "w \<le> 2 powi k"
    using a(1) unfolding pos_def by blast
  have "2 powi j' \<le> w" using w(2) two_powi_mono [OF a(2)] by simp
  moreover have "w \<le> 2 powi k'" using w(3) two_powi_mono [OF a(3)] by simp
  ultimately show ?thesis unfolding pos_def using w(1) by blast
qed

lemma nneg_mul:
  assumes "nneg j a" "nneg k b" "- 1074 \<le> j + k" "j + k \<le> 1023"
  shows "nneg (j + k) (js_mul a b)"
proof -
  obtain u where u: "a = Fin u" "0 \<le> u" "u \<le> 2 powi j" using assms(1) unfolding nneg_def by blast
  obtain w where w: "b = Fin w" "0 \<le> w" "w \<le> 2 powi k" using assms(2) unfolding nneg_def by blast
  have lo: "0 \<le> u * w" using u(2) w(2) by simp
  have "u * w \<le> 2 powi j * 2 powi k" using u(2,3) w(2,3) by (intro mult_mono) simp_all
  also have "\<dots> = 2 powi (j + k)" by (simp add: two_powi_split)
  finally have hi: "u * w \<le> 2 powi (j + k)" .
  show ?thesis unfolding u(1) w(1) js_mul.simps by (rule nneg_to_double [OF lo hi assms(3,4)])
qed

lemma one_plus_nneg:
  assumes "nneg k b" "0 \<le> k" "k \<le> 1022"
  shows "pos 0 (k + 1) (js_add (Fin 1) b)"
proof -
  obtain w where w: "b = Fin w" "0 \<le> w" "w \<le> 2 powi k" using assms(1) unfolding nneg_def by blast
  have lo: "2 powi 0 \<le> 1 + w" using w(2) by simp
  have "(1::real) = 2 powi 0" by simp
  also have "\<dots> \<le> 2 powi k" by (rule two_powi_mono [OF assms(2)])
  finally have "1 + w \<le> 2 powi k + 2 powi k" using w(3) by simp
  also have "\<dots> = 2 powi (k + 1)" by (simp add: two_powi_split)
  finally have hi: "1 + w \<le> 2 powi (k + 1)" .
  show ?thesis unfolding w(1) js_add.simps
    using assms(3) by (intro pos_to_double [OF lo hi]) simp_all
qed

lemma nonpos_to_double:
  assumes "v \<le> 0" "\<bar>v\<bar> \<le> 2 powi k" "- 1074 \<le> k" "k \<le> 1023"
  shows "nonpos (to_double v)"
proof -
  have "to_double v = Fin (fl v)" by (rule to_double_Fin(1) [OF assms(2-4)])
  moreover have "fl v \<le> 0" by (rule faithful_val_nonpos [OF fl_faithful assms(1)])
  ultimately show ?thesis unfolding nonpos_def by blast
qed

lemma nonpos_neg_square:
  assumes "nneg k x" "- 537 \<le> k" "k \<le> 511"
  shows "nonpos (js_mul (js_neg x) x)"
proof -
  obtain w where w: "x = Fin w" "0 \<le> w" "w \<le> 2 powi k" using assms(1) unfolding nneg_def by blast
  have le: "- w * w \<le> 0" using w(2) by simp
  have "\<bar>- w * w\<bar> = w * w" using w(2) by (simp add: abs_mult)
  also have "\<dots> \<le> 2 powi k * 2 powi k" using w(2,3) by (intro mult_mono) simp_all
  also have "\<dots> = 2 powi (k + k)" by (rule two_powi_split [symmetric])
  finally have m: "\<bar>- w * w\<bar> \<le> 2 powi (k + k)" .
  show ?thesis unfolding w(1) js_neg.simps js_mul.simps
    using assms(2,3) by (intro nonpos_to_double [OF le m]) simp_all
qed

lemma nonpos_half_square:
  assumes "mag k x" "- 536 \<le> k" "k \<le> 511"
  shows "nonpos (js_mul (js_mul (Fin (- 0.5)) x) x)"
proof -
  obtain w where w: "x = Fin w" "\<bar>w\<bar> \<le> 2 powi k" using assms(1) unfolding mag_def by blast
  have h: "\<bar>- 0.5 * w\<bar> \<le> 2 powi k" using w(2) by simp
  have k: "- 1074 \<le> k" "k \<le> 1023" using assms(2,3) by simp_all
  have a: "to_double (- 0.5 * w) = Fin (fl (- 0.5 * w))" by (rule to_double_Fin(1) [OF h k])
  have b: "\<bar>fl (- 0.5 * w)\<bar> \<le> 2 powi k" by (rule to_double_Fin(2) [OF h k])
  have le: "fl (- 0.5 * w) * w \<le> 0"
  proof (cases "0 \<le> w")
    case True
    then have "- 0.5 * w \<le> 0" by simp
    then have "fl (- 0.5 * w) \<le> 0" by (rule faithful_val_nonpos [OF fl_faithful])
    then show ?thesis using True by (simp add: mult_le_0_iff)
  next
    case False
    then have "0 \<le> - 0.5 * w" by simp
    then have "0 \<le> fl (- 0.5 * w)" by (rule faithful_val_nonneg [OF fl_faithful])
    then show ?thesis using False by (simp add: mult_le_0_iff)
  qed
  have "\<bar>fl (- 0.5 * w) * w\<bar> = \<bar>fl (- 0.5 * w)\<bar> * \<bar>w\<bar>" by (simp add: abs_mult)
  also have "\<dots> \<le> 2 powi k * 2 powi k" using b w(2) by (intro mult_mono) simp_all
  also have "\<dots> = 2 powi (k + k)" by (rule two_powi_split [symmetric])
  finally have m: "\<bar>fl (- 0.5 * w) * w\<bar> \<le> 2 powi (k + k)" .
  have "nonpos (to_double (fl (- 0.5 * w) * w))"
    using assms(2,3) by (intro nonpos_to_double [OF le m]) simp_all
  then show ?thesis unfolding w(1) js_mul.simps a .
qed

lemma exp_nonpos:
  assumes "faithful_lib lib" "nonpos v"
  shows "nneg 0 (js_exp lib v)"
proof -
  obtain u where u: "v = Fin u" "u \<le> 0" using assms(2) unfolding nonpos_def by blast
  have f: "faithful_val (exp u) (lib_exp lib u)" using assms(1) unfolding faithful_lib_def by blast
  have "exp u \<le> 2 powi 0" using u(2) by simp
  then have hi: "lib_exp lib u \<le> 2 powi 0" by (rule faithful_val_le_pow2 [OF f]) simp
  have lo: "0 \<le> lib_exp lib u" by (rule faithful_val_nonneg [OF f]) simp
  have "\<bar>lib_exp lib u\<bar> \<le> 2 powi 0" using lo hi by simp
  then have "range_of (lib_exp lib u) = Fin (lib_exp lib u)" by (rule range_of_Fin) simp
  then show ?thesis unfolding u(1) js_exp.simps nneg_def using lo hi by simp
qed

lemma exp_512: "exp (512::real) \<le> 2 powi 812"
proof -
  have "exp (512::real) = exp (of_nat 512 * 1)" by simp
  also have "\<dots> = exp 1 ^ 512" by (rule exp_of_nat_mult)
  also have "\<dots> \<le> (3::real) ^ 512" by (rule power_mono [OF exp_le]) simp
  also have "\<dots> \<le> 2 ^ 812" by simp
  also have "\<dots> = 2 powi 812" by simp
  finally show ?thesis .
qed

lemma exp_mag:
  assumes "faithful_lib lib" "mag 9 v"
  shows "mag 812 (js_exp lib v)"
proof -
  obtain u where u: "v = Fin u" "\<bar>u\<bar> \<le> 2 powi 9" using assms(2) unfolding mag_def by blast
  have f: "faithful_val (exp u) (lib_exp lib u)" using assms(1) unfolding faithful_lib_def by blast
  have "u \<le> 512" using u(2) by simp
  then have "exp u \<le> exp 512" by simp
  then have "exp u \<le> 2 powi 812" using exp_512 by (rule order_trans)
  then have hi: "lib_exp lib u \<le> 2 powi 812" by (rule faithful_val_le_pow2 [OF f]) simp
  have lo: "0 \<le> lib_exp lib u" by (rule faithful_val_nonneg [OF f]) simp
  have m: "\<bar>lib_exp lib u\<bar> \<le> 2 powi 812" using lo hi by simp
  then have "range_of (lib_exp lib u) = Fin (lib_exp lib u)" by (rule range_of_Fin) simp
  then show ?thesis unfolding u(1) js_exp.simps mag_def using m by simp
qed

lemma ln_pow2_bound:
  assumes "2 powi (- 200) \<le> (v::real)" "v \<le> 2 powi 200"
  shows "\<bar>ln v\<bar> \<le> 2 powi 8"
proof -
  have v0: "0 < v" by (rule two_powi_le_pos [OF assms(1)])
  have l2: "ln (2::real) \<le> 1" using ln_2_less_1 by simp
  have "ln ((2::real) ^ 200) = real 200 * ln 2" by (rule ln_realpow)
  also have "\<dots> \<le> real 200 * 1" using l2 by (intro mult_left_mono) simp_all
  finally have p: "ln ((2::real) ^ 200) \<le> 200" by simp
  have "ln v \<le> ln ((2::real) ^ 200)" using assms(2) v0 by (subst ln_le_cancel_iff) simp_all
  then have hi: "ln v \<le> 200" using p by (rule order_trans)
  have q: "ln (inverse ((2::real) ^ 200)) = - ln ((2::real) ^ 200)" by (rule ln_inverse)
  have "inverse ((2::real) ^ 200) \<le> v" using assms(1) by (simp add: power_int_minus)
  then have "ln (inverse ((2::real) ^ 200)) \<le> ln v" using v0 by (subst ln_le_cancel_iff) simp_all
  then have "- ln ((2::real) ^ 200) \<le> ln v" unfolding q .
  then have lo: "- 200 \<le> ln v" using p by linarith
  show ?thesis using lo hi by simp
qed

lemma log_mag:
  assumes "faithful_lib lib" "pos (- 200) 200 v"
  shows "mag 8 (js_log lib v)"
proof -
  obtain u where u: "v = Fin u" "2 powi (- 200) \<le> u" "u \<le> 2 powi 200"
    using assms(2) unfolding pos_def by blast
  have u0: "0 < u" by (rule two_powi_le_pos [OF u(2)])
  have f: "faithful_val (ln u) (lib_log lib u)" using assms(1) unfolding faithful_lib_def by blast
  have "\<bar>lib_log lib u\<bar> \<le> 2 powi 8"
    by (rule faithful_val_abs_le_pow2 [OF f ln_pow2_bound [OF u(2,3)]]) simp
  then show ?thesis unfolding u(1) mag_def using u0 by simp
qed

lemma pos_Fin: "2 powi j \<le> v \<Longrightarrow> v \<le> 2 powi k \<Longrightarrow> pos j k (Fin v)"
  unfolding pos_def by simp

lemma mag_Fin: "\<bar>v\<bar> \<le> 2 powi k \<Longrightarrow> mag k (Fin v)"
  unfolding mag_def by simp

section \<open>Finiteness of a point evaluation\<close>

lemma Math_PI_pos: "pos 1 2 (Fin Math_PI)"
proof -
  have lo: "2 powi 1 \<le> pi" using pi_ge_two by simp
  have hi: "pi \<le> 2 powi 2" using pi_less_4 by simp
  have a: "2 powi 1 \<le> fl pi" by (rule faithful_val_ge_pow2 [OF fl_faithful lo]) simp
  have b: "fl pi \<le> 2 powi 2" by (rule faithful_val_le_pow2 [OF fl_faithful hi]) simp
  show ?thesis unfolding pos_def Math_PI_def using a b by simp
qed

lemma sqrt_2pi_pos: "pos 1 2 (js_sqrt (js_mul (Fin 2) (Fin Math_PI)))"
proof -
  have "pos 1 1 (Fin 2)" by (rule pos_Fin) simp_all
  then have "pos (1 + 1) (1 + 2) (js_mul (Fin 2) (Fin Math_PI))"
    by (rule pos_mul [OF _ Math_PI_pos]) simp_all
  then have "pos (2 * 1) (2 * 2) (js_mul (Fin 2) (Fin Math_PI))"
    by (rule pos_mono) simp_all
  then show ?thesis by (rule pos_sqrt) simp
qed

lemma js_pdf_mag:
  assumes "faithful_lib lib" "mag 500 x"
  shows "mag (- 1) (js_pdf lib x)"
proof -
  have "nonpos (js_mul (js_mul (Fin (- 0.5)) x) x)"
    by (rule nonpos_half_square [OF assms(2)]) simp_all
  then have "nneg 0 (js_exp lib (js_mul (js_mul (Fin (- 0.5)) x) x))"
    by (rule exp_nonpos [OF assms(1)])
  then have "mag 0 (js_exp lib (js_mul (js_mul (Fin (- 0.5)) x) x))" by (rule nneg_mag)
  then have "mag (0 - 1) (js_pdf lib x)"
    unfolding js_pdf_def by (rule mag_div [OF _ sqrt_2pi_pos]) simp_all
  then show ?thesis by simp
qed

lemma js_cdf_mag:
  assumes f: "faithful_lib lib" and x0: "mag 500 x0"
  shows "mag 6 (js_cdf lib x0)"
proof -
  define x where "x = js_abs x0"
  define t where "t = js_div (Fin 1) (js_add (Fin 1) (js_mul (to_double 0.3275911) x))"
  have a1: "mag (- 1) (to_double 0.254829592)" by (rule mag_to_double) simp_all
  have a2: "mag (- 1) (to_double (- 0.284496736))" by (rule mag_to_double) simp_all
  have a3: "mag 1 (to_double 1.421413741)" by (rule mag_to_double) simp_all
  have a4: "mag 1 (to_double (- 1.453152027))" by (rule mag_to_double) simp_all
  have a5: "mag 1 (to_double 1.061405429)" by (rule mag_to_double) simp_all
  have p: "nneg (- 1) (to_double 0.3275911)" by (rule nneg_to_double) simp_all
  have x: "nneg 500 x" unfolding x_def by (rule nneg_abs [OF x0])
  have "nneg (- 1 + 500) (js_mul (to_double 0.3275911) x)"
    by (rule nneg_mul [OF p x]) simp_all
  then have "pos 0 (- 1 + 500 + 1) (js_add (Fin 1) (js_mul (to_double 0.3275911) x))"
    by (rule one_plus_nneg) simp_all
  moreover have "pos 0 0 (Fin 1)" by (rule pos_Fin) simp_all
  ultimately have "pos (0 - (- 1 + 500 + 1)) (0 - 0) t"
    unfolding t_def by (intro pos_div) simp_all
  then have t: "mag 0 t" using pos_mag by simp
  have "mag (1 + 0) (js_mul (to_double 1.061405429) t)" by (rule mag_mul [OF a5 t]) simp_all
  then have "mag (1 + 1) (js_add (js_mul (to_double 1.061405429) t) (to_double (- 1.453152027)))"
    by (rule mag_add [OF _ a4]) simp_all
  then have "mag (1 + 1 + 0)
      (js_mul (js_add (js_mul (to_double 1.061405429) t) (to_double (- 1.453152027))) t)"
    by (rule mag_mul [OF _ t]) simp_all
  then have "mag (2 + 1)
      (js_add (js_mul (js_add (js_mul (to_double 1.061405429) t) (to_double (- 1.453152027))) t)
         (to_double 1.421413741))"
    by (rule mag_add [OF _ a3]) simp_all
  then have "mag (2 + 1 + 0)
      (js_mul (js_add (js_mul (js_add (js_mul (to_double 1.061405429) t)
         (to_double (- 1.453152027))) t) (to_double 1.421413741)) t)"
    by (rule mag_mul [OF _ t]) simp_all
  then have "mag (3 + 1)
      (js_add (js_mul (js_add (js_mul (js_add (js_mul (to_double 1.061405429) t)
         (to_double (- 1.453152027))) t) (to_double 1.421413741)) t)
         (to_double (- 0.284496736)))"
    by (rule mag_add [OF _ a2]) simp_all
  then have "mag (3 + 1 + 0)
      (js_mul (js_add (js_mul (js_add (js_mul (js_add (js_mul (to_double 1.061405429) t)
         (to_double (- 1.453152027))) t) (to_double 1.421413741)) t)
         (to_double (- 0.284496736))) t)"
    by (rule mag_mul [OF _ t]) simp_all
  then have "mag (4 + 1)
      (js_add (js_mul (js_add (js_mul (js_add (js_mul (js_add (js_mul (to_double 1.061405429) t)
         (to_double (- 1.453152027))) t) (to_double 1.421413741)) t)
         (to_double (- 0.284496736))) t) (to_double 0.254829592))"
    by (rule mag_add [OF _ a1]) simp_all
  then have poly: "mag (4 + 1 + 0)
      (js_mul (js_add (js_mul (js_add (js_mul (js_add (js_mul (js_add (js_mul
         (to_double 1.061405429) t)
         (to_double (- 1.453152027))) t) (to_double 1.421413741)) t)
         (to_double (- 0.284496736))) t) (to_double 0.254829592)) t)"
    by (rule mag_mul [OF _ t]) simp_all
  have "nonpos (js_mul (js_neg x) x)" by (rule nonpos_neg_square [OF x]) simp_all
  then have "nneg 0 (js_exp lib (js_mul (js_neg x) x))" by (rule exp_nonpos [OF f])
  then have e: "mag 0 (js_exp lib (js_mul (js_neg x) x))" by (rule nneg_mag)
  have one: "mag 0 (Fin 1)" by (rule mag_Fin) simp
  have half: "mag (- 1) (Fin 0.5)" by (rule mag_Fin) simp
  have sign: "mag 0 (if js_ge0 x0 then Fin 1 else Fin (- 1))" unfolding mag_def by simp
  note tail = mag_mul [OF poly e]
  have "mag (5 + 1)
      (js_sub (Fin 1) (js_mul (js_mul (js_add (js_mul (js_add (js_mul (js_add (js_mul (js_add
         (js_mul (to_double 1.061405429) t)
         (to_double (- 1.453152027))) t) (to_double 1.421413741)) t)
         (to_double (- 0.284496736))) t) (to_double 0.254829592)) t)
         (js_exp lib (js_mul (js_neg x) x))))"
    by (rule mag_sub [OF one tail]) simp_all
  note y = mag_mul [OF sign this]
  have "mag (6 + 1)
      (js_add (Fin 1) (js_mul (if js_ge0 x0 then Fin 1 else Fin (- 1))
       (js_sub (Fin 1) (js_mul (js_mul (js_add (js_mul (js_add (js_mul (js_add (js_mul (js_add
         (js_mul (to_double 1.061405429) t)
         (to_double (- 1.453152027))) t) (to_double 1.421413741)) t)
         (to_double (- 0.284496736))) t) (to_double 0.254829592)) t)
         (js_exp lib (js_mul (js_neg x) x))))))"
    by (rule mag_add [OF one y]) simp_all
  note r = mag_mul [OF half this]
  have "mag (- 1 + (6 + 1)) (js_cdf lib x0)"
    unfolding js_cdf_def Let_def x_def [symmetric] t_def [symmetric]
    by (rule r) simp_all
  then show ?thesis by simp
qed

lemma js_new_BlackScholes_fields:
  "js_S (js_new_BlackScholes lib S K r T sigma) = S"
  "js_K (js_new_BlackScholes lib S K r T sigma) = K"
  "js_r (js_new_BlackScholes lib S K r T sigma) = r"
  "js_T (js_new_BlackScholes lib S K r T sigma) = T"
  "js_sigma (js_new_BlackScholes lib S K r T sigma) = sigma"
  "js_d1 (js_new_BlackScholes lib S K r T sigma) =
     js_div (js_add (js_log lib (js_div S K))
       (js_mul (js_add r (js_mul (Fin 0.5) (js_mul sigma sigma))) T))
       (js_mul sigma (js_sqrt T))"
  "js_d2 (js_new_BlackScholes lib S K r T sigma) =
     js_sub (js_d1 (js_new_BlackScholes lib S K r T sigma)) (js_mul sigma (js_sqrt T))"
  unfolding js_new_BlackScholes_def js_calculateD1D2_def Let_def by simp_all

lemma faithful_nearest_lib: "faithful_lib nearest_lib"
  unfolding faithful_lib_def nearest_lib_def by (simp add: fl_faithful)

text \<open>
  C9 as stated. Positive finite inputs do not make the fields finite: for the doubles
  \<open>S = 2 ^ 1000\<close>, \<open>K = 2 ^ (- 1000)\<close>, \<open>r = 0\<close>, \<open>T = 1\<close>, \<open>sigma = 1\<close> the quotient
  \<^verbatim>\<open>S / K\<close> overflows, so \<open>d1\<close> is \<^verbatim>\<open>Infinity\<close>, whatever \<^verbatim>\<open>Math.exp\<close> and \<^verbatim>\<open>Math.log\<close> return
  on finite arguments.
\<close>

theorem point_evaluation_overflow:
  "\<not> (\<exists>lib. isFinite (js_d1 (js_new_BlackScholes lib
        (Fin (2 ^ 1000)) (Fin (1 / 2 ^ 1000)) (Fin 0) (Fin 1) (Fin 1))))"
proof -
  have one: "to_double 1 = Fin 1"
    by (rule to_double_exact [where n = "2 ^ 52" and e = 0]) simp_all
  have half: "to_double (1 / 2) = Fin (1 / 2)"
    by (rule to_double_exact [where n = "2 ^ 52" and e = "- 1"]) simp_all
  have s1: "fl 1 = 1" by (rule fl_eqI [where n = "2 ^ 52" and e = 0, simplified]) simp_all
  have "js_d1 (js_new_BlackScholes lib (Fin (2 ^ 1000)) (Fin (1 / 2 ^ 1000)) (Fin 0) (Fin 1) (Fin 1))
      = PosInf" for lib
    unfolding js_new_BlackScholes_fields
    by (simp add: to_double_overflow one half s1 to_double_0 inf_of_def)
  then show ?thesis by (simp add: isFinite_def)
qed

lemma box_pos: "1 / 10 ^ 30 \<le> v \<Longrightarrow> v \<le> 10 ^ 30 \<Longrightarrow> pos (- 100) 100 (Fin v)"
  by (rule pos_Fin) simp_all

lemma js_fields_mag:
  assumes f: "faithful_lib lib"
    and S: "pos (- 100) 100 S" and K: "pos (- 100) 100 K" and r: "mag 100 r"
    and T: "pos (- 100) 100 T" and sg: "pos (- 100) 100 sigma"
    and rT: "mag 9 (js_mul (js_neg r) T)"
    and bs: "bs = js_new_BlackScholes lib S K r T sigma"
  shows "mag 451 (js_d1 bs)" "mag 452 (js_d2 bs)"
    "mag 919 (js_callPrice lib bs)" "mag 919 (js_putPrice lib bs)"
    "mag 6 (js_deltaCall lib bs)" "mag 7 (js_deltaPut lib bs)"
    "mag 249 (js_gamma lib bs)" "mag 143 (js_vega lib bs)"
    "mag 1011 (js_thetaCall lib bs)" "mag 1012 (js_rhoCall lib bs)"
proof -
  have fS: "js_S bs = S" and fK: "js_K bs = K" and fr: "js_r bs = r" and fT: "js_T bs = T"
    and fs: "js_sigma bs = sigma"
    unfolding bs by (rule js_new_BlackScholes_fields)+
  have half: "mag (- 1) (Fin 0.5)" by (rule mag_Fin) simp
  have one: "mag 0 (Fin 1)" by (rule mag_Fin) simp
  have two: "pos 1 1 (Fin 2)" by (rule pos_Fin) simp_all
  have c100: "pos 6 7 (Fin 100)" by (rule pos_Fin) simp_all
  have c365: "pos 8 9 (Fin 365)" by (rule pos_Fin) simp_all
  have "pos (- 100 - 100) (100 - (- 100)) (js_div S K)" by (rule pos_div [OF S K]) simp_all
  then have "pos (- 200) 200 (js_div S K)" by simp
  then have lg: "mag 8 (js_log lib (js_div S K))" by (rule log_mag [OF f])
  have ss: "mag (100 + 100) (js_mul sigma sigma)"
    by (rule mag_mul [OF pos_mag [OF sg] pos_mag [OF sg]]) simp_all
  have hs: "mag (- 1 + (100 + 100)) (js_mul (Fin 0.5) (js_mul sigma sigma))"
    by (rule mag_mul [OF half ss]) simp_all
  have rs: "mag (199 + 1) (js_add r (js_mul (Fin 0.5) (js_mul sigma sigma)))"
    by (rule mag_add [OF r hs]) simp_all
  have rsT: "mag (199 + 1 + 100) (js_mul (js_add r (js_mul (Fin 0.5) (js_mul sigma sigma))) T)"
    by (rule mag_mul [OF rs pos_mag [OF T]]) simp_all
  have num: "mag (300 + 1) (js_add (js_log lib (js_div S K))
       (js_mul (js_add r (js_mul (Fin 0.5) (js_mul sigma sigma))) T))"
    by (rule mag_add [OF lg rsT]) simp_all
  have "pos (2 * - 50) (2 * 50) T" using T by simp
  then have sq: "pos (- 50) 50 (js_sqrt T)" by (rule pos_sqrt) simp
  have den: "pos (- 100 + - 50) (100 + 50) (js_mul sigma (js_sqrt T))"
    by (rule pos_mul [OF sg sq]) simp_all
  have "mag (300 + 1 - (- 100 + - 50)) (js_d1 bs)"
    unfolding bs js_new_BlackScholes_fields by (rule mag_div [OF num den]) simp_all
  then show d1: "mag 451 (js_d1 bs)" by simp
  have "mag (451 + 1) (js_d2 bs)"
    unfolding bs js_new_BlackScholes_fields(7) unfolding bs [symmetric]
    by (rule mag_sub [OF d1 pos_mag [OF den]]) simp_all
  then show d2: "mag 452 (js_d2 bs)" by simp
  have c1: "mag 6 (js_cdf lib (js_d1 bs))"
    by (rule js_cdf_mag [OF f mag_mono [OF d1]]) simp
  have c2: "mag 6 (js_cdf lib (js_d2 bs))"
    by (rule js_cdf_mag [OF f mag_mono [OF d2]]) simp
  have n1: "mag 6 (js_cdf lib (js_neg (js_d1 bs)))"
    by (rule js_cdf_mag [OF f mag_mono [OF mag_neg [OF d1]]]) simp
  have n2: "mag 6 (js_cdf lib (js_neg (js_d2 bs)))"
    by (rule js_cdf_mag [OF f mag_mono [OF mag_neg [OF d2]]]) simp
  have p1: "mag (- 1) (js_pdf lib (js_d1 bs))"
    by (rule js_pdf_mag [OF f mag_mono [OF d1]]) simp
  have disc: "mag 812 (js_exp lib (js_mul (js_neg r) T))" by (rule exp_mag [OF f rT])
  have Kd: "mag (100 + 812) (js_mul K (js_exp lib (js_mul (js_neg r) T)))"
    by (rule mag_mul [OF pos_mag [OF K] disc]) simp_all
  have Sc: "mag (100 + 6) (js_mul S (js_cdf lib (js_d1 bs)))"
    by (rule mag_mul [OF pos_mag [OF S] c1]) simp_all
  have Kdc: "mag (100 + 812 + 6)
      (js_mul (js_mul K (js_exp lib (js_mul (js_neg r) T))) (js_cdf lib (js_d2 bs)))"
    by (rule mag_mul [OF Kd c2]) simp_all
  have "mag (918 + 1) (js_callPrice lib bs)"
    unfolding js_callPrice_def fS fK fr fT by (rule mag_sub [OF Sc Kdc]) simp_all
  then show "mag 919 (js_callPrice lib bs)" by simp
  have Sn: "mag (100 + 6) (js_mul S (js_cdf lib (js_neg (js_d1 bs))))"
    by (rule mag_mul [OF pos_mag [OF S] n1]) simp_all
  have Kdn: "mag (100 + 812 + 6)
      (js_mul (js_mul K (js_exp lib (js_mul (js_neg r) T))) (js_cdf lib (js_neg (js_d2 bs))))"
    by (rule mag_mul [OF Kd n2]) simp_all
  have "mag (918 + 1) (js_putPrice lib bs)"
    unfolding js_putPrice_def fS fK fr fT by (rule mag_sub [OF Kdn Sn]) simp_all
  then show "mag 919 (js_putPrice lib bs)" by simp
  show "mag 6 (js_deltaCall lib bs)" unfolding js_deltaCall_def by (rule c1)
  have "mag (6 + 1) (js_deltaPut lib bs)"
    unfolding js_deltaPut_def by (rule mag_sub [OF c1 one]) simp_all
  then show "mag 7 (js_deltaPut lib bs)" by simp
  have Ss: "pos (- 100 + - 100) (100 + 100) (js_mul S sigma)"
    by (rule pos_mul [OF S sg]) simp_all
  have Sss: "pos (- 100 + - 100 + - 50) (100 + 100 + 50) (js_mul (js_mul S sigma) (js_sqrt T))"
    by (rule pos_mul [OF Ss sq]) simp_all
  have "mag (- 1 - (- 100 + - 100 + - 50)) (js_gamma lib bs)"
    unfolding js_gamma_def fS fs fT by (rule mag_div [OF p1 Sss]) simp_all
  then show "mag 249 (js_gamma lib bs)" by simp
  have Sp: "mag (100 + - 1) (js_mul S (js_pdf lib (js_d1 bs)))"
    by (rule mag_mul [OF pos_mag [OF S] p1]) simp_all
  have Spq: "mag (100 + - 1 + 50) (js_mul (js_mul S (js_pdf lib (js_d1 bs))) (js_sqrt T))"
    by (rule mag_mul [OF Sp pos_mag [OF sq]]) simp_all
  have "mag (100 + - 1 + 50 - 6) (js_vega lib bs)"
    unfolding js_vega_def fS fT by (rule mag_div [OF Spq c100]) simp_all
  then show "mag 143 (js_vega lib bs)" by simp
  have Sps: "mag (100 + - 1 + 100) (js_mul (js_mul S (js_pdf lib (js_d1 bs))) sigma)"
    by (rule mag_mul [OF Sp pos_mag [OF sg]]) simp_all
  have tq: "pos (1 + - 50) (1 + 50) (js_mul (Fin 2) (js_sqrt T))"
    by (rule pos_mul [OF two sq]) simp_all
  have t1: "mag (100 + - 1 + 100 - (1 + - 50))
      (js_div (js_neg (js_mul (js_mul S (js_pdf lib (js_d1 bs))) sigma))
         (js_mul (Fin 2) (js_sqrt T)))"
    by (rule mag_div [OF mag_neg [OF Sps] tq]) simp_all
  have rK: "mag (100 + 100) (js_mul (js_neg r) K)"
    by (rule mag_mul [OF mag_neg [OF r] pos_mag [OF K]]) simp_all
  have rKd: "mag (100 + 100 + 812)
      (js_mul (js_mul (js_neg r) K) (js_exp lib (js_mul (js_neg r) T)))"
    by (rule mag_mul [OF rK disc]) simp_all
  have t2: "mag (100 + 100 + 812 + 6)
      (js_mul (js_mul (js_mul (js_neg r) K) (js_exp lib (js_mul (js_neg r) T)))
         (js_cdf lib (js_d2 bs)))"
    by (rule mag_mul [OF rKd c2]) simp_all
  have t12: "mag (1018 + 1)
      (js_add (js_div (js_neg (js_mul (js_mul S (js_pdf lib (js_d1 bs))) sigma))
         (js_mul (Fin 2) (js_sqrt T)))
       (js_mul (js_mul (js_mul (js_neg r) K) (js_exp lib (js_mul (js_neg r) T)))
         (js_cdf lib (js_d2 bs))))"
    by (rule mag_add [OF t1 t2]) simp_all
  have "mag (1018 + 1 - 8) (js_thetaCall lib bs)"
    unfolding js_thetaCall_def Let_def fS fK fr fT fs by (rule mag_div [OF t12 c365]) simp_all
  then show "mag 1011 (js_thetaCall lib bs)" by simp
  have KT: "mag (100 + 100) (js_mul K T)"
    by (rule mag_mul [OF pos_mag [OF K] pos_mag [OF T]]) simp_all
  have KTd: "mag (100 + 100 + 812) (js_mul (js_mul K T) (js_exp lib (js_mul (js_neg r) T)))"
    by (rule mag_mul [OF KT disc]) simp_all
  have KTdc: "mag (100 + 100 + 812 + 6)
      (js_mul (js_mul (js_mul K T) (js_exp lib (js_mul (js_neg r) T))) (js_cdf lib (js_d2 bs)))"
    by (rule mag_mul [OF KTd c2]) simp_all
  have "mag (100 + 100 + 812 + 6 - 6) (js_rhoCall lib bs)"
    unfolding js_rhoCall_def fS fK fr fT by (rule mag_div [OF KTdc c100]) simp_all
  then show "mag 1012 (js_rhoCall lib bs)" by simp
qed

text \<open>
  C9, amended. For inputs \<open>S\<close>, \<open>K\<close>, \<open>T\<close>, \<open>sigma\<close> between \<open>1e-30\<close> and \<open>1e30\<close>, and \<open>r\<close>
  with \<open>\<bar>r\<bar> \<le> 1e30\<close> and \<open>\<bar>r * T\<bar> \<le> 500\<close>, every one of the ten fields of a point
  evaluation on doubles is a finite number, for every faithful \<^verbatim>\<open>Math.exp\<close> and
  \<^verbatim>\<open>Math.log\<close>; so no division by zero and no logarithm of a non-positive argument occurs,
  and no intermediate result overflows.
\<close>

theorem point_evaluation_finite:
  assumes "faithful_lib lib"
    and "1 / 10 ^ 30 \<le> S" "S \<le> 10 ^ 30" "1 / 10 ^ 30 \<le> K" "K \<le> 10 ^ 30"
    and "1 / 10 ^ 30 \<le> T" "T \<le> 10 ^ 30" "1 / 10 ^ 30 \<le> sigma" "sigma \<le> 10 ^ 30"
    and "\<bar>r\<bar> \<le> 10 ^ 30" "\<bar>r * T\<bar> \<le> 500"
    and "bs = js_new_BlackScholes lib (Fin S) (Fin K) (Fin r) (Fin T) (Fin sigma)"
  shows "isFinite (js_d1 bs) \<and> isFinite (js_d2 bs) \<and>
         isFinite (js_callPrice lib bs) \<and> isFinite (js_putPrice lib bs) \<and>
         isFinite (js_deltaCall lib bs) \<and> isFinite (js_deltaPut lib bs) \<and>
         isFinite (js_gamma lib bs) \<and> isFinite (js_vega lib bs) \<and>
         isFinite (js_thetaCall lib bs) \<and> isFinite (js_rhoCall lib bs)"
proof -
  have S: "pos (- 100) 100 (Fin S)" by (rule box_pos [OF assms(2,3)])
  have K: "pos (- 100) 100 (Fin K)" by (rule box_pos [OF assms(4,5)])
  have T: "pos (- 100) 100 (Fin T)" by (rule box_pos [OF assms(6,7)])
  have sg: "pos (- 100) 100 (Fin sigma)" by (rule box_pos [OF assms(8,9)])
  have r: "mag 100 (Fin r)" using assms(10) by (intro mag_Fin) simp
  have "\<bar>- r * T\<bar> \<le> 2 powi 9" using assms(11) by simp
  then have rT: "mag 9 (js_mul (js_neg (Fin r)) (Fin T))"
    unfolding js_neg.simps js_mul.simps by (rule mag_to_double) simp_all
  note m = js_fields_mag [OF assms(1) S K r T sg rT assms(12)]
  show ?thesis by (intro conjI mag_isFinite) (rule m)+
qed

theorem point_evaluation_finite_witness:
  "faithful_lib nearest_lib \<and>
   (1 / 10 ^ 30 \<le> (100::real) \<and> (100::real) \<le> 10 ^ 30 \<and> 1 / 10 ^ 30 \<le> (1::real) \<and>
    (1::real) \<le> 10 ^ 30 \<and> 1 / 10 ^ 30 \<le> (0.2::real) \<and> (0.2::real) \<le> 10 ^ 30 \<and>
    \<bar>0.05::real\<bar> \<le> 10 ^ 30 \<and> \<bar>(0.05::real) * 1\<bar> \<le> 500) \<and>
   isFinite (js_d1
     (js_new_BlackScholes nearest_lib (Fin 100) (Fin 100) (Fin 0.05) (Fin 1) (Fin 0.2))) \<and>
   isFinite (js_d2
     (js_new_BlackScholes nearest_lib (Fin 100) (Fin 100) (Fin 0.05) (Fin 1) (Fin 0.2))) \<and>
   isFinite (js_callPrice nearest_lib
     (js_new_BlackScholes nearest_lib (Fin 100) (Fin 100) (Fin 0.05) (Fin 1) (Fin 0.2))) \<and>
   isFinite (js_putPrice nearest_lib
     (js_new_BlackScholes nearest_lib (Fin 100) (Fin 100) (Fin 0.05) (Fin 1) (Fin 0.2))) \<and>
   isFinite (js_deltaCall nearest_lib
     (js_new_BlackScholes nearest_lib (Fin 100) (Fin 100) (Fin 0.05) (Fin 1) (Fin 0.2))) \<and>
   isFinite (js_deltaPut nearest_lib
     (js_new_BlackScholes nearest_lib (Fin 100) (Fin 100) (Fin 0.05) (Fin 1) (Fin 0.2))) \<and>
   isFinite (js_gamma nearest_lib
     (js_new_BlackScholes nearest_lib (Fin 100) (Fin 100) (Fin 0.05) (Fin 1) (Fin 0.2))) \<and>
   isFinite (js_vega nearest_lib
     (js_new_BlackScholes nearest_lib (Fin 100) (Fin 100) (Fin 0.05) (Fin 1) (Fin 0.2))) \<and>
   isFinite (js_thetaCall nearest_lib
     (js_new_BlackScholes nearest_lib (Fin 100) (Fin 100) (Fin 0.05) (Fin 1) (Fin 0.2))) \<and>
   isFinite (js_rhoCall nearest_lib
     (js_new_BlackScholes nearest_lib (Fin 100) (Fin 100) (Fin 0.05) (Fin 1) (Fin 0.2)))"
proof -
  have h: "1 / 10 ^ 30 \<le> (100::real)" "(100::real) \<le> 10 ^ 30" "1 / 10 ^ 30 \<le> (1::real)"
    "(1::real) \<le> 10 ^ 30" "1 / 10 ^ 30 \<le> (0.2::real)" "(0.2::real) \<le> 10 ^ 30"
    "\<bar>0.05::real\<bar> \<le> 10 ^ 30" "\<bar>(0.05::real) * 1\<bar> \<le> 500"
    by simp_all
  note f = point_evaluation_finite [OF faithful_nearest_lib h(1,2) h(1,2) h(3,4) h(5,6) h(7,8) refl]
  from f h faithful_nearest_lib show ?thesis by blast
qed

section \<open>The normal-distribution helper on doubles\<close>

lemma exp_neg_bounds:
  assumes "0 \<le> w" "w \<le> 1"
  shows "exp_lower8 w \<le> exp (- w)" "exp (- w) \<le> exp_upper8 w"
proof -
  obtain t where t: "\<bar>t\<bar> \<le> \<bar>- w\<bar>"
    "exp (- w) = (\<Sum>m<8. (- w) ^ m / fact m) + (exp t / fact 8) * (- w) ^ 8"
    using Maclaurin_exp_le [of "- w" 8] by blast
  have s: "(\<Sum>m<8. (- w) ^ m / fact m) = exp_lower8 w"
    unfolding exp_lower8_def
    by (simp add: eval_nat_numeral lessThan_Suc fact_numeral)
  have w8: "(- w) ^ 8 = w ^ 8" by simp
  have e: "exp (- w) = exp_lower8 w + exp t / fact 8 * w ^ 8" using t(2) unfolding s w8 .
  have "0 \<le> exp t / fact 8 * w ^ 8" using assms(1) by simp
  then show "exp_lower8 w \<le> exp (- w)" using e by simp
  have "t \<le> 1" using t(1) assms by simp
  then have "exp t \<le> exp 1" by simp
  then have "exp t \<le> 3" using exp_le by (rule order_trans)
  then have "exp t / fact 8 * w ^ 8 \<le> 3 / fact 8 * w ^ 8"
    using assms(1) by (intro mult_right_mono divide_right_mono) simp_all
  also have "\<dots> = w ^ 8 / 13440" by (simp add: fact_numeral)
  finally show "exp (- w) \<le> exp_upper8 w" using e unfolding exp_upper8_def by simp
qed

lemma faithful_val_between:
  assumes "faithful_val v w" "- 1022 \<le> e" "2 ^ 52 \<le> n" "n < 2 ^ 53"
    and "of_int n * 2 powi (e - 52) < v" "v < of_int (n + 1) * 2 powi (e - 52)"
  shows "w = of_int n * 2 powi (e - 52) \<or> w = of_int (n + 1) * 2 powi (e - 52)"
proof -
  let ?u = "(2::real) powi (e - 52)"
  have u0: "0 < ?u" by (rule two_powi_pos)
  have "e = 52 + (e - 52)" by simp
  then have "(2::real) powi e = 2 powi (52 + (e - 52))" by (simp only:)
  also have "\<dots> = 2 powi 52 * ?u" by (rule two_powi_split)
  also have "\<dots> = of_int (2 ^ 52) * ?u" by simp
  also have "\<dots> \<le> of_int n * ?u" using assms(3) u0 by (intro mult_right_mono) simp_all
  finally have lo: "2 powi e \<le> v" using assms(5) by simp
  have "of_int (n + 1) * ?u \<le> of_int (2 ^ 53) * ?u"
    using assms(4) u0 by (intro mult_right_mono) simp_all
  also have "\<dots> = 2 powi 53 * ?u" by simp
  also have "\<dots> = 2 powi (53 + (e - 52))" by (rule two_powi_split [symmetric])
  also have "\<dots> = 2 powi (e + 1)"
  proof -
    have "53 + (e - 52) = e + 1" by simp
    then show ?thesis by (simp only:)
  qed
  finally have hi: "v < 2 powi (e + 1)" using assms(6) by simp
  have v0: "0 < v" using lo two_powi_pos [of e] by (rule less_le_trans [rotated])
  have "expo v = e" using lo hi v0 by (intro expo_eqI [OF _ _ assms(2)]) simp_all
  then have u: "ulp v = ?u" by (simp add: ulp_def)
  have a: "of_int n < v / ?u" using assms(5) u0 by (simp add: pos_less_divide_eq)
  have b: "v / ?u < of_int (n + 1)" using assms(6) u0 by (simp add: pos_divide_less_eq)
  have f: "\<lfloor>v / ?u\<rfloor> = n" using a b by (intro floor_unique) simp_all
  have c: "\<lceil>v / ?u\<rceil> = n + 1" using a b by (intro ceiling_unique) simp_all
  show ?thesis using assms(1) unfolding faithful_val_def fl_down_def fl_up_def u f c by simp
qed

lemma js_exp_neg_val:
  assumes "faithful_lib lib"
    and "c0 = of_int n * 2 powi (e - 52)" "c1 = of_int (n + 1) * 2 powi (e - 52)"
    and "0 \<le> w" "w \<le> 1" "- 1022 \<le> e" "e \<le> 1022" "2 ^ 52 \<le> n" "n < 2 ^ 53"
    and "c0 < exp_lower8 w" "exp_upper8 w < c1"
  shows "js_exp lib (Fin (- w)) = Fin c0 \<or> js_exp lib (Fin (- w)) = Fin c1"
proof -
  note b = exp_neg_bounds [OF assms(4,5)]
  have f: "faithful_val (exp (- w)) (lib_exp lib (- w))"
    using assms(1) unfolding faithful_lib_def by blast
  have lo: "of_int n * 2 powi (e - 52) < exp (- w)"
    using assms(10) b(1) unfolding assms(2) by simp
  have hi: "exp (- w) < of_int (n + 1) * 2 powi (e - 52)"
    using assms(11) b(2) unfolding assms(3) by simp
  have d: "lib_exp lib (- w) = c0 \<or> lib_exp lib (- w) = c1"
    unfolding assms(2,3) by (rule faithful_val_between [OF f assms(6,8,9) lo hi])
  have "exp (- w) \<le> 2 powi 0" using assms(4) by simp
  then have le: "lib_exp lib (- w) \<le> 2 powi 0" by (rule faithful_val_le_pow2 [OF f]) simp
  have ge: "0 \<le> lib_exp lib (- w)" by (rule faithful_val_nonneg [OF f]) simp
  have "\<bar>lib_exp lib (- w)\<bar> \<le> 2 powi 0" using le ge by simp
  then have "range_of (lib_exp lib (- w)) = Fin (lib_exp lib (- w))" by (rule range_of_Fin) simp
  then show ?thesis using d by auto
qed

subsection \<open>The literals of \<^verbatim>\<open>cdf\<close> as doubles\<close>

lemma lit_a1: "to_double 0.254829592 = Fin (2295300911148351 / 2 ^ 53)"
  by (rule to_double_val [where n = "4590601822296702" and e = "-2"]) simp_all

lemma lit_a2: "to_double (- 0.284496736) = Fin (- (5125037576950889 / 2 ^ 54))"
  by (rule to_double_val [where n = "-5125037576950889" and e = "-2"]) simp_all

lemma lit_a3: "to_double 1.421413741 = Fin (6401478394306903 / 2 ^ 52)"
  by (rule to_double_val [where n = "6401478394306903" and e = "0"]) simp_all

lemma lit_a4: "to_double (- 1.453152027) = Fin (- (6544414927309881 / 2 ^ 52))"
  by (rule to_double_val [where n = "-6544414927309881" and e = "0"]) simp_all

lemma lit_a5: "to_double 1.061405429 = Fin (4780145094533421 / 2 ^ 52)"
  by (rule to_double_val [where n = "4780145094533421" and e = "0"]) simp_all

lemma lit_p: "to_double 0.3275911 = Fin (1475339155889891 / 2 ^ 52)"
  by (rule to_double_val [where n = "5901356623559564" and e = "-2"]) simp_all

subsection \<open>The evaluation at two neighbouring doubles\<close>

text \<open>
  The doubles \<open>x1 = 0.08074288076990888\<close> and \<open>x2 = 0.08074288076990889\<close> are neighbours.
  Every arithmetic result of \<^verbatim>\<open>cdf\<close> at each of them is determined; the exact value of
  \<^verbatim>\<open>Math.exp\<close> lies strictly between two neighbouring doubles, and a faithful \<^verbatim>\<open>Math.exp\<close>
  returns one of the two. Both lead to the same result.
\<close>

lemma js_cdf_at_x1:
  assumes f: "faithful_lib lib"
  shows "js_cdf lib (Fin (181816803874091 / 2 ^ 51)) = Fin (2456513353951569 / 2 ^ 52)"
proof -
  have ge: "js_ge0 (Fin (181816803874091 / 2 ^ 51))" by simp
  have ab: "js_abs (Fin (181816803874091 / 2 ^ 51)) = Fin (181816803874091 / 2 ^ 51)" by simp
  have a1: "js_mul (Fin (1475339155889891 / 2 ^ 52)) (Fin (181816803874091 / 2 ^ 51)) =
      Fin (3811940273894255 / 2 ^ 57)"
    by (rule js_mul_val [where n = "7623880547788510" and e = "-6"]) simp_all
  have a2: "js_add (Fin 1) (Fin (3811940273894255 / 2 ^ 57)) =
      Fin (4622722760929691 / 2 ^ 52)"
    by (rule js_add_val [where n = "4622722760929691" and e = "0"]) simp_all
  have a3: "js_div (Fin 1) (Fin (4622722760929691 / 2 ^ 52)) =
      Fin (4387546182754989 / 2 ^ 52)"
    by (rule js_div_val [where n = "8775092365509978" and e = "-1"]) simp_all
  have a4: "js_mul (Fin (4780145094533421 / 2 ^ 52)) (Fin (4387546182754989 / 2 ^ 52)) =
      Fin (4656965338364371 / 2 ^ 52)"
    by (rule js_mul_val [where n = "4656965338364371" and e = "0"]) simp_all
  have a5: "js_add (Fin (4656965338364371 / 2 ^ 52)) (Fin (- (6544414927309881 / 2 ^ 52))) =
      Fin (- (943724794472755 / 2 ^ 51))"
    by (rule js_add_val [where n = "-7549798355782040" and e = "-2"]) simp_all
  have a6: "js_mul (Fin (- (943724794472755 / 2 ^ 51))) (Fin (4387546182754989 / 2 ^ 52)) =
      Fin (- (3677623645224213 / 2 ^ 53))"
    by (rule js_mul_val [where n = "-7355247290448426" and e = "-2"]) simp_all
  have a7: "js_add (Fin (- (3677623645224213 / 2 ^ 53))) (Fin (6401478394306903 / 2 ^ 52)) =
      Fin (1140666642923699 / 2 ^ 50)"
    by (rule js_add_tie [where n = "4562666571694796" and e = "0"]) simp_all
  have a8: "js_mul (Fin (1140666642923699 / 2 ^ 50)) (Fin (4387546182754989 / 2 ^ 52)) =
      Fin (8890182057107807 / 2 ^ 53)"
    by (rule js_mul_val [where n = "8890182057107807" and e = "-1"]) simp_all
  have a9: "js_add (Fin (8890182057107807 / 2 ^ 53)) (Fin (- (5125037576950889 / 2 ^ 54))) =
      Fin (3163831634316181 / 2 ^ 52)"
    by (rule js_add_tie [where n = "6327663268632362" and e = "-1"]) simp_all
  have a10: "js_mul (Fin (3163831634316181 / 2 ^ 52)) (Fin (4387546182754989 / 2 ^ 52)) =
      Fin (6164605452784605 / 2 ^ 53)"
    by (rule js_mul_val [where n = "6164605452784605" and e = "-1"]) simp_all
  have a11: "js_add (Fin (6164605452784605 / 2 ^ 53)) (Fin (2295300911148351 / 2 ^ 53)) =
      Fin (2114976590983239 / 2 ^ 51)"
    by (rule js_add_val [where n = "8459906363932956" and e = "-1"]) simp_all
  have a12: "js_mul (Fin (2114976590983239 / 2 ^ 51)) (Fin (4387546182754989 / 2 ^ 52)) =
      Fin (8241902687786391 / 2 ^ 53)"
    by (rule js_mul_val [where n = "8241902687786391" and e = "-1"]) simp_all
  have a13: "js_mul (Fin (- (181816803874091 / 2 ^ 51))) (Fin (181816803874091 / 2 ^ 51)) =
      Fin (- (3758185604395939 / 2 ^ 59))"
    by (rule js_mul_val [where n = "-7516371208791878" and e = "-8"]) simp_all
  have aE: "js_exp lib (Fin (- (3758185604395939 / 2 ^ 59))) = Fin (1118583575589491 / 2 ^ 50) \<or>
      js_exp lib (Fin (- (3758185604395939 / 2 ^ 59))) = Fin (8948668604715929 / 2 ^ 53)"
    by (rule js_exp_neg_val [OF f, where n = "8948668604715928" and e = "-1"])
      (simp_all add: exp_lower8_def exp_upper8_def power_divide)
  have a14: "js_mul (Fin (8241902687786391 / 2 ^ 53)) (Fin (1118583575589491 / 2 ^ 50)) =
      Fin (8188345093675709 / 2 ^ 53)"
    by (rule js_mul_val [where n = "8188345093675709" and e = "-1"]) simp_all
  have a15: "js_sub (Fin 1) (Fin (8188345093675709 / 2 ^ 53)) =
      Fin (818854161065283 / 2 ^ 53)"
    by (rule js_sub_val [where n = "6550833288522264" and e = "-4"]) simp_all
  have a16: "js_mul (Fin 1) (Fin (818854161065283 / 2 ^ 53)) =
      Fin (818854161065283 / 2 ^ 53)"
    by (rule js_mul_val [where n = "6550833288522264" and e = "-4"]) simp_all
  have a17: "js_add (Fin 1) (Fin (818854161065283 / 2 ^ 53)) =
      Fin (2456513353951569 / 2 ^ 51)"
    by (rule js_add_tie [where n = "4913026707903138" and e = "0"]) simp_all
  have a18: "js_mul (Fin 0.5) (Fin (2456513353951569 / 2 ^ 51)) =
      Fin (2456513353951569 / 2 ^ 52)"
    by (rule js_mul_val [where n = "4913026707903138" and e = "-1"]) simp_all
  have a19: "js_mul (Fin (8241902687786391 / 2 ^ 53)) (Fin (8948668604715929 / 2 ^ 53)) =
      Fin (8188345093675709 / 2 ^ 53)"
    by (rule js_mul_val [where n = "8188345093675709" and e = "-1"]) simp_all
  have r0: "js_cdf lib (Fin (181816803874091 / 2 ^ 51)) = Fin (2456513353951569 / 2 ^ 52)"
    if e: "js_exp lib (Fin (- (3758185604395939 / 2 ^ 59))) = Fin (1118583575589491 / 2 ^ 50)"
    unfolding js_cdf_def Let_def
    by (simp only: ge ab if_True js_neg.simps lit_a1 lit_a2 lit_a3 lit_a4 lit_a5 lit_p
          a1 a2 a3 a4 a5 a6 a7 a8 a9 a10 a11 a12 a13 e a14 a15 a16 a17 a18)
  have r1: "js_cdf lib (Fin (181816803874091 / 2 ^ 51)) = Fin (2456513353951569 / 2 ^ 52)"
    if e: "js_exp lib (Fin (- (3758185604395939 / 2 ^ 59))) = Fin (8948668604715929 / 2 ^ 53)"
    unfolding js_cdf_def Let_def
    by (simp only: ge ab if_True js_neg.simps lit_a1 lit_a2 lit_a3 lit_a4 lit_a5 lit_p
          a1 a2 a3 a4 a5 a6 a7 a8 a9 a10 a11 a12 a13 e a19 a15 a16 a17 a18)
  show ?thesis using aE r0 r1 by blast
qed

lemma js_cdf_at_x2:
  assumes f: "faithful_lib lib"
  shows "js_cdf lib (Fin (5818137723970913 / 2 ^ 56)) = Fin (4913026707903137 / 2 ^ 53)"
proof -
  have ge: "js_ge0 (Fin (5818137723970913 / 2 ^ 56))" by simp
  have ab: "js_abs (Fin (5818137723970913 / 2 ^ 56)) = Fin (5818137723970913 / 2 ^ 56)" by simp
  have b1: "js_mul (Fin (1475339155889891 / 2 ^ 52)) (Fin (5818137723970913 / 2 ^ 56)) =
      Fin (238246267118391 / 2 ^ 53)"
    by (rule js_mul_val [where n = "7623880547788512" and e = "-6"]) simp_all
  have b2: "js_add (Fin 1) (Fin (238246267118391 / 2 ^ 53)) =
      Fin (1155680690232423 / 2 ^ 50)"
    by (rule js_add_tie [where n = "4622722760929692" and e = "0"]) simp_all
  have b3: "js_div (Fin 1) (Fin (1155680690232423 / 2 ^ 50)) =
      Fin (8775092365509977 / 2 ^ 53)"
    by (rule js_div_val [where n = "8775092365509977" and e = "-1"]) simp_all
  have b4: "js_mul (Fin (4780145094533421 / 2 ^ 52)) (Fin (8775092365509977 / 2 ^ 53)) =
      Fin (4656965338364371 / 2 ^ 52)"
    by (rule js_mul_val [where n = "4656965338364371" and e = "0"]) simp_all
  have b5: "js_add (Fin (4656965338364371 / 2 ^ 52)) (Fin (- (6544414927309881 / 2 ^ 52))) =
      Fin (- (943724794472755 / 2 ^ 51))"
    by (rule js_add_val [where n = "-7549798355782040" and e = "-2"]) simp_all
  have b6: "js_mul (Fin (- (943724794472755 / 2 ^ 51))) (Fin (8775092365509977 / 2 ^ 53)) =
      Fin (- (7355247290448425 / 2 ^ 54))"
    by (rule js_mul_val [where n = "-7355247290448425" and e = "-2"]) simp_all
  have b7: "js_add (Fin (- (7355247290448425 / 2 ^ 54))) (Fin (6401478394306903 / 2 ^ 52)) =
      Fin (4562666571694797 / 2 ^ 52)"
    by (rule js_add_val [where n = "4562666571694797" and e = "0"]) simp_all
  have b8: "js_mul (Fin (4562666571694797 / 2 ^ 52)) (Fin (8775092365509977 / 2 ^ 53)) =
      Fin (277818189284619 / 2 ^ 48)"
    by (rule js_mul_val [where n = "8890182057107808" and e = "-1"]) simp_all
  have b9: "js_add (Fin (277818189284619 / 2 ^ 48)) (Fin (- (5125037576950889 / 2 ^ 54))) =
      Fin (1581915817158091 / 2 ^ 51)"
    by (rule js_add_tie [where n = "6327663268632364" and e = "-1"]) simp_all
  have b10: "js_mul (Fin (1581915817158091 / 2 ^ 51)) (Fin (8775092365509977 / 2 ^ 53)) =
      Fin (6164605452784607 / 2 ^ 53)"
    by (rule js_mul_val [where n = "6164605452784607" and e = "-1"]) simp_all
  have b11: "js_add (Fin (6164605452784607 / 2 ^ 53)) (Fin (2295300911148351 / 2 ^ 53)) =
      Fin (4229953181966479 / 2 ^ 52)"
    by (rule js_add_val [where n = "8459906363932958" and e = "-1"]) simp_all
  have b12: "js_mul (Fin (4229953181966479 / 2 ^ 52)) (Fin (8775092365509977 / 2 ^ 53)) =
      Fin (1030237835973299 / 2 ^ 50)"
    by (rule js_mul_val [where n = "8241902687786392" and e = "-1"]) simp_all
  have b13: "js_mul (Fin (- (5818137723970913 / 2 ^ 56))) (Fin (5818137723970913 / 2 ^ 56)) =
      Fin (- (939546401098985 / 2 ^ 57))"
    by (rule js_mul_val [where n = "-7516371208791880" and e = "-8"]) simp_all
  have bE: "js_exp lib (Fin (- (939546401098985 / 2 ^ 57))) = Fin (1118583575589491 / 2 ^ 50) \<or>
      js_exp lib (Fin (- (939546401098985 / 2 ^ 57))) = Fin (8948668604715929 / 2 ^ 53)"
    by (rule js_exp_neg_val [OF f, where n = "8948668604715928" and e = "-1"])
      (simp_all add: exp_lower8_def exp_upper8_def power_divide)
  have b14: "js_mul (Fin (1030237835973299 / 2 ^ 50)) (Fin (1118583575589491 / 2 ^ 50)) =
      Fin (4094172546837855 / 2 ^ 52)"
    by (rule js_mul_val [where n = "8188345093675710" and e = "-1"]) simp_all
  have b15: "js_sub (Fin 1) (Fin (4094172546837855 / 2 ^ 52)) =
      Fin (409427080532641 / 2 ^ 52)"
    by (rule js_sub_val [where n = "6550833288522256" and e = "-4"]) simp_all
  have b16: "js_mul (Fin 1) (Fin (409427080532641 / 2 ^ 52)) =
      Fin (409427080532641 / 2 ^ 52)"
    by (rule js_mul_val [where n = "6550833288522256" and e = "-4"]) simp_all
  have b17: "js_add (Fin 1) (Fin (409427080532641 / 2 ^ 52)) =
      Fin (4913026707903137 / 2 ^ 52)"
    by (rule js_add_val [where n = "4913026707903137" and e = "0"]) simp_all
  have b18: "js_mul (Fin 0.5) (Fin (4913026707903137 / 2 ^ 52)) =
      Fin (4913026707903137 / 2 ^ 53)"
    by (rule js_mul_val [where n = "4913026707903137" and e = "-1"]) simp_all
  have b19: "js_mul (Fin (1030237835973299 / 2 ^ 50)) (Fin (8948668604715929 / 2 ^ 53)) =
      Fin (4094172546837855 / 2 ^ 52)"
    by (rule js_mul_val [where n = "8188345093675710" and e = "-1"]) simp_all
  have r0: "js_cdf lib (Fin (5818137723970913 / 2 ^ 56)) = Fin (4913026707903137 / 2 ^ 53)"
    if e: "js_exp lib (Fin (- (939546401098985 / 2 ^ 57))) = Fin (1118583575589491 / 2 ^ 50)"
    unfolding js_cdf_def Let_def
    by (simp only: ge ab if_True js_neg.simps lit_a1 lit_a2 lit_a3 lit_a4 lit_a5 lit_p
          b1 b2 b3 b4 b5 b6 b7 b8 b9 b10 b11 b12 b13 e b14 b15 b16 b17 b18)
  have r1: "js_cdf lib (Fin (5818137723970913 / 2 ^ 56)) = Fin (4913026707903137 / 2 ^ 53)"
    if e: "js_exp lib (Fin (- (939546401098985 / 2 ^ 57))) = Fin (8948668604715929 / 2 ^ 53)"
    unfolding js_cdf_def Let_def
    by (simp only: ge ab if_True js_neg.simps lit_a1 lit_a2 lit_a3 lit_a4 lit_a5 lit_p
          b1 b2 b3 b4 b5 b6 b7 b8 b9 b10 b11 b12 b13 e b19 b15 b16 b17 b18)
  show ?thesis using bE r0 r1 by blast
qed

text \<open>
  C8 as stated. On doubles \<^verbatim>\<open>cdf\<close> is not monotone: \<open>x1 \<le> x2\<close> for the two doubles above,
  and for every faithful \<^verbatim>\<open>Math.exp\<close> the result at \<open>x1\<close> is \<open>0.5454555371712397\<close> and the
  result at \<open>x2\<close> is \<open>0.5454555371712396\<close>, so \<^verbatim>\<open>cdf(x1) <= cdf(x2)\<close> is false. A faithful
  library exists.
\<close>

theorem cdf_not_monotone:
  "(181816803874091 / 2 ^ 51 :: real) \<le> 5818137723970913 / 2 ^ 56 \<and>
   faithful_lib nearest_lib \<and>
   \<not> (\<exists>lib. faithful_lib lib \<and>
          js_le (js_cdf lib (Fin (181816803874091 / 2 ^ 51)))
                (js_cdf lib (Fin (5818137723970913 / 2 ^ 56))))"
proof -
  have "\<not> js_le (js_cdf lib (Fin (181816803874091 / 2 ^ 51)))
                (js_cdf lib (Fin (5818137723970913 / 2 ^ 56)))" if f: "faithful_lib lib" for lib
    unfolding js_cdf_at_x1 [OF f] js_cdf_at_x2 [OF f] by simp
  then show ?thesis using faithful_nearest_lib by auto
qed

subsection \<open>The error of one rounding\<close>

lemma round_even_error: "\<bar>of_int (round_even m) - m\<bar> \<le> 1 / 2"
proof -
  have f: "of_int \<lfloor>m\<rfloor> \<le> m" "m < of_int \<lfloor>m\<rfloor> + 1" by linarith+
  have c: "m \<le> of_int \<lceil>m\<rceil>" "of_int \<lceil>m\<rceil> < m + 1" by linarith+
  consider "m - of_int \<lfloor>m\<rfloor> < 1 / 2" | "m - of_int \<lfloor>m\<rfloor> > 1 / 2" | "m - of_int \<lfloor>m\<rfloor> = 1 / 2"
    by linarith
  then show ?thesis
  proof cases
    case 1
    then show ?thesis using f by (simp add: round_even_def)
  next
    case 2
    have "\<lceil>m\<rceil> \<le> \<lfloor>m\<rfloor> + 1" by (rule ceiling_le) (use f in simp)
    then have "(of_int \<lceil>m\<rceil> :: real) \<le> of_int \<lfloor>m\<rfloor> + 1" by (metis of_int_1 of_int_add of_int_le_iff)
    then show ?thesis using 2 c by (simp add: round_even_def)
  next
    case 3
    have "\<lceil>m\<rceil> \<le> \<lfloor>m\<rfloor> + 1" by (rule ceiling_le) (use f in simp)
    then have "(of_int \<lceil>m\<rceil> :: real) \<le> of_int \<lfloor>m\<rfloor> + 1" by (metis of_int_1 of_int_add of_int_le_iff)
    then show ?thesis using 3 c by (simp add: round_even_def)
  qed
qed

lemma fl_error: "\<bar>fl v - v\<bar> \<le> ulp v / 2"
proof -
  have u: "0 < ulp v" by (rule ulp_pos)
  have "fl v - v = (of_int (round_even (v / ulp v)) - v / ulp v) * ulp v"
    using u by (simp add: fl_def algebra_simps)
  then have "\<bar>fl v - v\<bar> = \<bar>of_int (round_even (v / ulp v)) - v / ulp v\<bar> * ulp v"
    using u by (simp add: abs_mult)
  also have "\<dots> \<le> 1 / 2 * ulp v"
    using u by (intro mult_right_mono round_even_error) simp
  finally show ?thesis by simp
qed

lemma faithful_error: "faithful_val v w \<Longrightarrow> \<bar>w - v\<bar> \<le> ulp v"
proof -
  assume a: "faithful_val v w"
  have u: "0 < ulp v" by (rule ulp_pos)
  let ?m = "v / ulp v"
  have f: "of_int \<lfloor>?m\<rfloor> \<le> ?m" "?m < of_int \<lfloor>?m\<rfloor> + 1" by linarith+
  have c: "?m \<le> of_int \<lceil>?m\<rceil>" "of_int \<lceil>?m\<rceil> < ?m + 1" by linarith+
  from a consider "w = of_int \<lfloor>?m\<rfloor> * ulp v" | "w = of_int \<lceil>?m\<rceil> * ulp v"
    unfolding faithful_val_def fl_down_def fl_up_def by blast
  then obtain n :: int where n: "w = of_int n * ulp v" "\<bar>of_int n - ?m\<bar> \<le> 1"
  proof cases
    case 1
    show ?thesis by (rule that [OF 1]) (use f in linarith)
  next
    case 2
    show ?thesis by (rule that [OF 2]) (use c in linarith)
  qed
  have "w - v = (of_int n - ?m) * ulp v" using u by (simp add: n(1) algebra_simps)
  then have "\<bar>w - v\<bar> = \<bar>of_int n - ?m\<bar> * ulp v" using u by (simp add: abs_mult)
  also have "\<dots> \<le> 1 * ulp v" using u n(2) by (intro mult_right_mono) simp_all
  finally show ?thesis by simp
qed

lemma expo_le:
  assumes "v \<noteq> 0" "\<bar>v\<bar> \<le> 2 powi k" "- 1022 \<le> k"
  shows "expo v \<le> k"
proof (cases "- 1022 < expo v")
  case True
  have "2 powi expo v \<le> \<bar>v\<bar>" by (rule expo_lower [OF assms(1) True])
  then have le: "(2::real) powi expo v \<le> 2 powi k" using assms(2) by simp
  show ?thesis
  proof (rule ccontr)
    assume "\<not> expo v \<le> k"
    then have "(2::real) powi k < 2 powi expo v" by (intro two_powi_strict_mono) simp
    with le show False by simp
  qed
next
  case False
  then show ?thesis using assms(3) by simp
qed

lemma ulp_le:
  assumes "v \<noteq> 0" "\<bar>v\<bar> \<le> 2 powi k" "- 1022 \<le> k"
  shows "ulp v \<le> 2 powi (k - 52)"
  unfolding ulp_def using expo_le [OF assms] by (intro two_powi_mono) simp

lemma fl_error_pow2:
  assumes "\<bar>v\<bar> \<le> 2 powi k" "- 1022 \<le> k"
  shows "\<bar>fl v - v\<bar> \<le> 2 powi (k - 53)"
proof (cases "v = 0")
  case True
  then show ?thesis by (simp add: fl_0)
next
  case False
  have "\<bar>fl v - v\<bar> \<le> ulp v / 2" by (rule fl_error)
  also have "\<dots> \<le> 2 powi (k - 52) / 2" using ulp_le [OF False assms] by simp
  also have "\<dots> = 2 powi (k - 53)" using two_powi_diff [of "k - 52" 1] by simp
  finally show ?thesis .
qed

lemma faithful_error_pow2:
  assumes "faithful_val v w" "v \<noteq> 0" "\<bar>v\<bar> \<le> 2 powi k" "- 1022 \<le> k"
  shows "\<bar>w - v\<bar> \<le> 2 powi (k - 52)"
  using faithful_error [OF assms(1)] ulp_le [OF assms(2-4)] by simp

lemma fl_error_rel: "\<bar>fl v - v\<bar> \<le> 2 powi (- 53) * \<bar>v\<bar> + 2 powi (- 1075)"
proof (cases "v = 0")
  case True
  then show ?thesis by (simp add: fl_0)
next
  case False
  have e: "\<bar>fl v - v\<bar> \<le> ulp v / 2" by (rule fl_error)
  show ?thesis
  proof (cases "- 1022 < expo v")
    case True
    have l: "2 powi expo v \<le> \<bar>v\<bar>" by (rule expo_lower [OF False True])
    have "ulp v / 2 = 2 powi (- 53) * 2 powi expo v"
      unfolding ulp_def using two_powi_split [of "- 53" "expo v"] two_powi_diff [of "expo v - 52" 1]
      by (simp add: algebra_simps)
    also have "\<dots> \<le> 2 powi (- 53) * \<bar>v\<bar>" using l by (intro mult_left_mono) simp_all
    finally show ?thesis using e by simp
  next
    case False
    then have "expo v = - 1022" using expo_ge [of v] by simp
    then have u: "ulp v / 2 = 2 powi (- 1075)"
      unfolding ulp_def using two_powi_diff [of "- 1074" 1] by simp
    have a: "\<bar>fl v - v\<bar> \<le> 2 powi (- 1075)" using e unfolding u .
    have b: "(2::real) powi (- 1075) \<le> 2 powi (- 53) * \<bar>v\<bar> + 2 powi (- 1075)"
      by (rule le_add_same_cancel2 [THEN iffD2]) simp
    show ?thesis by (rule order_trans [OF a b])
  qed
qed

subsection \<open>The error of the operators\<close>

lemma apx_round:
  assumes "\<bar>vh - v\<bar> \<le> d0" "\<bar>v\<bar> \<le> A" "\<bar>vh\<bar> \<le> 2 powi k" "- 1022 \<le> k" "k \<le> 1023"
    and "d0 + 2 powi (k - 53) \<le> d"
  shows "apx d A v (to_double vh)"
proof -
  have k: "- 1074 \<le> k" using assms(4) by simp
  have f: "to_double vh = Fin (fl vh)" by (rule to_double_Fin(1) [OF assms(3) k assms(5)])
  have e: "\<bar>fl vh - vh\<bar> \<le> 2 powi (k - 53)" by (rule fl_error_pow2 [OF assms(3,4)])
  have "\<bar>fl vh - v\<bar> \<le> \<bar>fl vh - vh\<bar> + \<bar>vh - v\<bar>" by simp
  also have "\<dots> \<le> 2 powi (k - 53) + d0" using e assms(1) by (rule add_mono)
  also have "\<dots> \<le> d" using assms(6) by simp
  finally show ?thesis unfolding apx_def f using assms(2) by simp
qed

lemma apx_mul:
  assumes "apx d1 A1 v1 x1" "apx d2 A2 v2 x2"
    and "(A1 + d1) * (A2 + d2) \<le> 2 powi k" "- 1022 \<le> k" "k \<le> 1023"
    and "d1 * (A2 + d2) + d2 * A1 + 2 powi (k - 53) \<le> d" "A1 * A2 \<le> A"
  shows "apx d A (v1 * v2) (js_mul x1 x2)"
proof -
  obtain w1 where w1: "x1 = Fin w1" "\<bar>w1 - v1\<bar> \<le> d1" "\<bar>v1\<bar> \<le> A1"
    using assms(1) unfolding apx_def by blast
  obtain w2 where w2: "x2 = Fin w2" "\<bar>w2 - v2\<bar> \<le> d2" "\<bar>v2\<bar> \<le> A2"
    using assms(2) unfolding apx_def by blast
  have d1: "0 \<le> d1" using w1(2) by simp
  have d2: "0 \<le> d2" using w2(2) by simp
  have A1: "0 \<le> A1" using w1(3) by simp
  have b1: "\<bar>w1\<bar> \<le> A1 + d1" using w1(2,3) by simp
  have b2: "\<bar>w2\<bar> \<le> A2 + d2" using w2(2,3) by simp
  have "w1 * w2 - v1 * v2 = (w1 - v1) * w2 + v1 * (w2 - v2)" by (simp add: algebra_simps)
  then have "\<bar>w1 * w2 - v1 * v2\<bar> \<le> \<bar>(w1 - v1) * w2\<bar> + \<bar>v1 * (w2 - v2)\<bar>" by simp
  also have "\<dots> = \<bar>w1 - v1\<bar> * \<bar>w2\<bar> + \<bar>v1\<bar> * \<bar>w2 - v2\<bar>" by (simp add: abs_mult)
  also have "\<dots> \<le> d1 * (A2 + d2) + A1 * d2"
    using w1(2,3) w2(2) b2 d1 d2 A1 by (intro add_mono mult_mono) simp_all
  finally have e: "\<bar>w1 * w2 - v1 * v2\<bar> \<le> d1 * (A2 + d2) + d2 * A1" by (simp add: mult.commute)
  have "\<bar>w1 * w2\<bar> = \<bar>w1\<bar> * \<bar>w2\<bar>" by (simp add: abs_mult)
  also have "\<dots> \<le> (A1 + d1) * (A2 + d2)" using b1 b2 by (intro mult_mono) simp_all
  finally have m: "\<bar>w1 * w2\<bar> \<le> 2 powi k" using assms(3) by simp
  have "\<bar>v1 * v2\<bar> = \<bar>v1\<bar> * \<bar>v2\<bar>" by (simp add: abs_mult)
  also have "\<dots> \<le> A1 * A2" using w1(3) w2(3) A1 by (intro mult_mono) simp_all
  finally have a: "\<bar>v1 * v2\<bar> \<le> A" using assms(7) by simp
  show ?thesis unfolding w1(1) w2(1) js_mul.simps
    by (rule apx_round [OF e a m assms(4,5,6)])
qed

lemma apx_add:
  assumes "apx d1 A1 v1 x1" "apx d2 A2 v2 x2"
    and "A1 + d1 + (A2 + d2) \<le> 2 powi k" "- 1022 \<le> k" "k \<le> 1023"
    and "d1 + d2 + 2 powi (k - 53) \<le> d" "A1 + A2 \<le> A"
  shows "apx d A (v1 + v2) (js_add x1 x2)"
proof -
  obtain w1 where w1: "x1 = Fin w1" "\<bar>w1 - v1\<bar> \<le> d1" "\<bar>v1\<bar> \<le> A1"
    using assms(1) unfolding apx_def by blast
  obtain w2 where w2: "x2 = Fin w2" "\<bar>w2 - v2\<bar> \<le> d2" "\<bar>v2\<bar> \<le> A2"
    using assms(2) unfolding apx_def by blast
  have e: "\<bar>w1 + w2 - (v1 + v2)\<bar> \<le> d1 + d2" using w1(2) w2(2) by simp
  have m: "\<bar>w1 + w2\<bar> \<le> 2 powi k" using w1(2,3) w2(2,3) assms(3) by simp
  have a: "\<bar>v1 + v2\<bar> \<le> A" using w1(3) w2(3) assms(7) by simp
  show ?thesis unfolding w1(1) w2(1) js_add.simps
    by (rule apx_round [OF e a m assms(4,5,6)])
qed

lemma apx_sub:
  assumes "apx d1 A1 v1 x1" "apx d2 A2 v2 x2"
    and "A1 + d1 + (A2 + d2) \<le> 2 powi k" "- 1022 \<le> k" "k \<le> 1023"
    and "d1 + d2 + 2 powi (k - 53) \<le> d" "A1 + A2 \<le> A"
  shows "apx d A (v1 - v2) (js_sub x1 x2)"
proof -
  obtain w2 where w2: "x2 = Fin w2" "\<bar>w2 - v2\<bar> \<le> d2" "\<bar>v2\<bar> \<le> A2"
    using assms(2) unfolding apx_def by blast
  have n: "apx d2 A2 (- v2) (js_neg x2)" unfolding apx_def w2(1) using w2(2,3) by simp
  have "apx d A (v1 + - v2) (js_add x1 (js_neg x2))" by (rule apx_add [OF assms(1) n assms(3-7)])
  then show ?thesis unfolding js_sub_def by simp
qed

lemma apx_Fin: "\<bar>v\<bar> \<le> A \<Longrightarrow> apx 0 A v (Fin v)"
  unfolding apx_def by simp

lemma apx_lit: "to_double a = Fin ah \<Longrightarrow> \<bar>ah - a\<bar> \<le> d \<Longrightarrow> \<bar>a\<bar> \<le> A \<Longrightarrow> apx d A a (to_double a)"
  unfolding apx_def by simp

subsection \<open>The error of \<^verbatim>\<open>cdf\<close>\<close>

text \<open>
  The quotient \<open>t\<close> is within \<open>4 * 2 ^ (- 53)\<close> of its exact value and the exponential
  factor within \<open>7 * 2 ^ (- 53)\<close>, also where \<^verbatim>\<open>x * x\<close> overflows or the exponential
  underflows; the polynomial and the final operations add the error of one rounding
  each.
\<close>

lemma exp_diff_le: "\<bar>exp a - exp b\<bar> \<le> exp (max a b) * \<bar>a - b\<bar>" for a b :: real
proof -
  have *: "exp d - exp c \<le> exp d * (d - c)" if "c \<le> d" for c d :: real
  proof -
    have "1 + (c - d) \<le> exp (c - d)" by (rule exp_ge_add_one_self)
    then have "1 - exp (c - d) \<le> d - c" by linarith
    then have "exp d * (1 - exp (c - d)) \<le> exp d * (d - c)" by (intro mult_left_mono) simp_all
    moreover have "exp d * (1 - exp (c - d)) = exp d - exp c"
      by (simp add: algebra_simps exp_add [symmetric])
    ultimately show ?thesis by simp
  qed
  show ?thesis
  proof (cases "a \<le> b")
    case True
    then have "exp a \<le> exp b" by simp
    then show ?thesis using * [OF True] True by (simp add: max_def)
  next
    case False
    then have ba: "b \<le> a" by simp
    then have "exp b \<le> exp a" by simp
    then show ?thesis using * [OF ba] ba by (simp add: max_def)
  qed
qed

lemma t_error:
  assumes "0 \<le> x" "x \<le> 2 ^ 1024"
  shows "apx (4 / 2 ^ 53) 1 (1 / (1 + 0.3275911 * x))
           (js_div (Fin 1) (js_add (Fin 1) (js_mul (to_double 0.3275911) (Fin x))))"
proof -
  define P :: real where "P = 1475339155889891 / 2 ^ 52"
  define q where "q = fl (P * x)"
  define s where "s = fl (1 + q)"
  define sr where "sr = 1 + 0.3275911 * x"
  have P: "to_double 0.3275911 = Fin P" unfolding P_def by (rule lit_p)
  have Px0: "0 \<le> P * x" using assms(1) by (simp add: P_def)
  have "P * x \<le> (1 / 2) * 2 ^ 1024" using assms by (intro mult_mono) (simp_all add: P_def)
  then have "\<bar>P * x\<bar> \<le> 2 powi 1023" using Px0 by simp
  then have fq: "to_double (P * x) = Fin q" unfolding q_def by (rule to_double_Fin(1)) simp_all
  have q0: "0 \<le> q" unfolding q_def by (rule faithful_val_nonneg [OF fl_faithful Px0])
  have "\<bar>q - P * x\<bar> \<le> 2 powi (- 53) * \<bar>P * x\<bar> + 2 powi (- 1075)"
    unfolding q_def by (rule fl_error_rel)
  then have eq: "\<bar>q - P * x\<bar> \<le> P * x / 2 ^ 53 + 1 / 2 ^ 1075"
    using Px0 by (simp add: power_int_minus field_simps)
  have q1: "1 + q \<le> 2 ^ 1023" using eq assms unfolding P_def by simp
  then have "\<bar>1 + q\<bar> \<le> 2 powi 1023" using q0 by simp
  then have fs: "to_double (1 + q) = Fin s" unfolding s_def by (rule to_double_Fin(1)) simp_all
  have "2 powi 0 \<le> 1 + q" using q0 by simp
  then have "2 powi 0 \<le> s" unfolding s_def by (rule faithful_val_ge_pow2 [OF fl_faithful]) simp
  then have s1: "1 \<le> s" by simp
  have "\<bar>s - (1 + q)\<bar> \<le> 2 powi (- 53) * \<bar>1 + q\<bar> + 2 powi (- 1075)"
    unfolding s_def by (rule fl_error_rel)
  then have es: "\<bar>s - (1 + q)\<bar> \<le> (1 + q) / 2 ^ 53 + 1 / 2 ^ 1075"
    using q0 by (simp add: power_int_minus field_simps)
  have sr1: "1 \<le> sr" unfolding sr_def using assms(1) by simp
  have n: "(1::real) / 2 ^ 1075 \<le> 1 / 2 ^ 60" by simp
  have qu: "q \<le> P * x + P * x / 2 ^ 53 + 1 / 2 ^ 60"
    and ql: "P * x - P * x / 2 ^ 53 - 1 / 2 ^ 60 \<le> q"
    using eq n by linarith+
  have su: "s \<le> (1 + q) + (1 + q) / 2 ^ 53 + 1 / 2 ^ 60"
    and sl: "(1 + q) - (1 + q) / 2 ^ 53 - 1 / 2 ^ 60 \<le> s"
    using es n by linarith+
  have u: "s - sr \<le> 3 / 2 ^ 53 * sr"
    using qu su assms(1) unfolding sr_def P_def by (simp add: field_simps)
  have l: "- (3 / 2 ^ 53 * sr) \<le> s - sr"
    using ql sl assms(1) unfolding sr_def P_def by (simp add: field_simps)
  have d: "\<bar>s - sr\<bar> \<le> 3 / 2 ^ 53 * sr" using u l by linarith
  have "1 / s - 1 / sr = (sr - s) / (s * sr)" using s1 sr1 by (simp add: field_simps)
  then have "\<bar>1 / s - 1 / sr\<bar> = \<bar>sr - s\<bar> / (s * sr)" using s1 sr1 by (simp add: abs_mult)
  also have "\<dots> \<le> (3 / 2 ^ 53 * sr) / (s * sr)"
  proof (rule divide_right_mono)
    show "\<bar>sr - s\<bar> \<le> 3 / 2 ^ 53 * sr" using d by (simp only: abs_minus_commute)
    show "0 \<le> s * sr" using s1 sr1 by simp
  qed
  also have "\<dots> = 3 / 2 ^ 53 / s" using sr1 by simp
  also have "\<dots> \<le> 3 / 2 ^ 53 / 1" using s1 by (intro divide_left_mono) simp_all
  finally have e: "\<bar>1 / s - 1 / sr\<bar> \<le> 3 / 2 ^ 53" by simp
  have a: "\<bar>1 / sr\<bar> \<le> 1" using sr1 by simp
  have m: "\<bar>1 / s\<bar> \<le> 2 powi 0" using s1 by simp
  have "apx (4 / 2 ^ 53) 1 (1 / sr) (to_double (1 / s))"
    by (rule apx_round [OF e a m]) simp_all
  moreover have "js_div (Fin 1) (js_add (Fin 1) (js_mul (to_double 0.3275911) (Fin x))) =
      to_double (1 / s)"
    unfolding P js_mul.simps fq js_add.simps fs using s1 by simp
  ultimately show ?thesis unfolding sr_def by simp
qed

lemma exp_minus_54: "exp (- 54 :: real) \<le> 1 / 2 ^ 53"
proof -
  have "(2::real) \<le> exp 1" using exp_ge_add_one_self [of "1::real"] by simp
  then have "(2::real) ^ 54 \<le> exp 1 ^ 54" by (intro power_mono) simp_all
  also have "\<dots> = exp (of_nat 54 * 1)" by (rule exp_of_nat_mult [symmetric])
  finally have "(2::real) ^ 54 \<le> exp 54" by simp
  then have "inverse (exp (54::real)) \<le> inverse (2 ^ 54)" by (rule le_imp_inverse_le) simp
  moreover have "exp (- 54 :: real) = inverse (exp 54)" by (rule exp_minus)
  ultimately have "exp (- 54 :: real) \<le> inverse (2 ^ 54)" by (simp only:)
  also have "\<dots> \<le> (1::real) / 2 ^ 53" by simp
  finally show ?thesis .
qed

lemma exp_error:
  assumes f: "faithful_lib lib" and x: "0 \<le> x"
  shows "apx (7 / 2 ^ 53) 1 (exp (- x * x)) (js_exp lib (js_mul (js_neg (Fin x)) (Fin x)))"
proof -
  define u where "u = x * x"
  define v where "v = - x * x"
  define vh where "vh = fl v"
  have u0: "0 \<le> u" unfolding u_def using x by simp
  have vu: "v = - u" unfolding v_def u_def by simp
  have v0: "v \<le> 0" using u0 vu by simp
  have vh0: "vh \<le> 0" unfolding vh_def by (rule faithful_val_nonpos [OF fl_faithful v0])
  have m: "js_mul (js_neg (Fin x)) (Fin x) = range_of vh"
    unfolding vh_def v_def by (simp add: to_double_def)
  have a: "\<bar>exp v\<bar> \<le> 1" using v0 by simp
  show ?thesis
  proof (cases "vh \<le> - (2 ^ 1024)")
    case True
    have r: "range_of vh = NegInf" unfolding range_of_def using True vh0 by simp
    have "\<not> \<bar>v\<bar> \<le> 2 powi 1023"
    proof
      assume "\<bar>v\<bar> \<le> 2 powi 1023"
      then have "\<bar>vh\<bar> \<le> 2 powi 1023"
        unfolding vh_def by (rule faithful_val_abs_le_pow2 [OF fl_faithful]) simp
      then show False using True by simp
    qed
    then have "v \<le> - 54" using v0 by simp
    then have "exp v \<le> exp (- 54)" by simp
    then have "exp v \<le> 1 / 2 ^ 53" using exp_minus_54 by (rule order_trans)
    then have "\<bar>0 - exp v\<bar> \<le> 7 / 2 ^ 53" by simp
    then show ?thesis unfolding m r js_exp.simps apx_def v_def [symmetric] using a by simp
  next
    case False
    then have r: "range_of vh = Fin vh" unfolding range_of_def using vh0 by simp
    define e where "e = lib_exp lib vh"
    have fe: "faithful_val (exp vh) e" unfolding e_def using f unfolding faithful_lib_def by blast
    have hi: "exp vh \<le> 2 powi 0" using vh0 by simp
    have e1: "e \<le> 2 powi 0" by (rule faithful_val_le_pow2 [OF fe hi]) simp
    have e0: "0 \<le> e" by (rule faithful_val_nonneg [OF fe]) simp
    have "\<bar>e\<bar> \<le> 2 powi 0" using e0 e1 by simp
    then have re: "range_of e = Fin e" by (rule range_of_Fin) simp
    have "\<bar>e - exp vh\<bar> \<le> 2 powi (0 - 52)"
      by (rule faithful_error_pow2 [OF fe]) (use hi in simp_all)
    then have d1: "\<bar>e - exp vh\<bar> \<le> 2 / 2 ^ 53" by simp
    have "\<bar>vh - v\<bar> \<le> 2 powi (- 53) * \<bar>v\<bar> + 2 powi (- 1075)"
      unfolding vh_def by (rule fl_error_rel)
    then have dv: "\<bar>vh - v\<bar> \<le> u / 2 ^ 53 + 1 / 2 ^ 1075"
      using u0 unfolding vu by (simp add: power_int_minus field_simps)
    have n: "(1::real) / 2 ^ 1075 \<le> 1 / 2" by simp
    have "u / 2 ^ 53 \<le> u / 2" using u0 by (intro divide_left_mono) simp_all
    then have "max vh v \<le> - (u / 2) + 1 / 2" using dv n unfolding vu by linarith
    then have "exp (max vh v) \<le> exp (- (u / 2) + 1 / 2)" by simp
    also have "\<dots> = exp (- (u / 2)) * exp (1 / 2)" by (rule exp_add)
    also have "\<dots> \<le> exp (- (u / 2)) * 2"
    proof (rule mult_left_mono)
      have "exp (1 / 2 :: real) \<le> 1 + 1 / 2 + (1 / 2)\<^sup>2" by (rule exp_bound) simp_all
      then show "exp (1 / 2 :: real) \<le> 2" by (simp add: power2_eq_square)
      show "0 \<le> exp (- (u / 2))" by simp
    qed
    finally have mx: "exp (max vh v) \<le> 2 * exp (- (u / 2))" by simp
    have "1 + u / 2 \<le> exp (u / 2)" by (rule exp_ge_add_one_self)
    then have "u \<le> 2 * exp (u / 2)" using u0 by linarith
    then have "u * exp (- (u / 2)) \<le> 2 * exp (u / 2) * exp (- (u / 2))"
      by (intro mult_right_mono) simp_all
    also have "\<dots> = 2" by (simp add: exp_minus)
    finally have ue: "u * exp (- (u / 2)) \<le> 2" .
    have el: "exp (- (u / 2)) \<le> 1" using u0 by simp
    have "\<bar>exp vh - exp v\<bar> \<le> exp (max vh v) * \<bar>vh - v\<bar>" by (rule exp_diff_le)
    also have "\<dots> \<le> (2 * exp (- (u / 2))) * (u / 2 ^ 53 + 1 / 2 ^ 1075)"
      using mx dv by (intro mult_mono) simp_all
    also have "\<dots> = 2 * (u * exp (- (u / 2))) / 2 ^ 53 + 2 * exp (- (u / 2)) * (1 / 2 ^ 1075)"
      by (simp add: algebra_simps)
    also have "\<dots> \<le> 2 * 2 / 2 ^ 53 + 2 * 1 * (1 / 2 ^ 1075)"
      using ue el by (intro add_mono divide_right_mono mult_left_mono mult_right_mono) simp_all
    also have "\<dots> \<le> 5 / 2 ^ 53" by simp
    finally have d2: "\<bar>exp vh - exp v\<bar> \<le> 5 / 2 ^ 53" .
    have "\<bar>e - exp v\<bar> \<le> \<bar>e - exp vh\<bar> + \<bar>exp vh - exp v\<bar>" by simp
    also have "\<dots> \<le> 2 / 2 ^ 53 + 5 / 2 ^ 53" using d1 d2 by (rule add_mono)
    finally have "\<bar>e - exp v\<bar> \<le> 7 / 2 ^ 53" by simp
    then show ?thesis
      unfolding m r js_exp.simps e_def [symmetric] re apx_def v_def [symmetric] using a by simp
  qed
qed

lemma js_cdf_error:
  assumes f: "faithful_lib lib" and x0: "\<bar>x0\<bar> \<le> 2 ^ 1024"
  shows "apx (103 / 2 ^ 53) 4 (cdf x0) (js_cdf lib (Fin x0))"
proof -
  define x where "x = \<bar>x0\<bar>"
  define tr where "tr = 1 / (1 + 0.3275911 * x)"
  define T where "T = js_div (Fin 1) (js_add (Fin 1) (js_mul (to_double 0.3275911) (Fin x)))"
  define er where "er = exp (- x * x)"
  define E where "E = js_exp lib (js_mul (js_neg (Fin x)) (Fin x))"
  define sg :: real where "sg = (if x0 \<ge> 0 then 1 else - 1)"
  define SG where "SG = (if js_ge0 (Fin x0) then Fin 1 else Fin (- 1))"
  define r1 where "r1 = 1.061405429 * tr"
  define H1 where "H1 = js_mul (to_double 1.061405429) T"
  define r2 where "r2 = r1 + - 1.453152027"
  define H2 where "H2 = js_add H1 (to_double (- 1.453152027))"
  define r3 where "r3 = r2 * tr"
  define H3 where "H3 = js_mul H2 T"
  define r4 where "r4 = r3 + 1.421413741"
  define H4 where "H4 = js_add H3 (to_double 1.421413741)"
  define r5 where "r5 = r4 * tr"
  define H5 where "H5 = js_mul H4 T"
  define r6 where "r6 = r5 + - 0.284496736"
  define H6 where "H6 = js_add H5 (to_double (- 0.284496736))"
  define r7 where "r7 = r6 * tr"
  define H7 where "H7 = js_mul H6 T"
  define r8 where "r8 = r7 + 0.254829592"
  define H8 where "H8 = js_add H7 (to_double 0.254829592)"
  define r9 where "r9 = r8 * tr"
  define H9 where "H9 = js_mul H8 T"
  define rp where "rp = r9 * er"
  define HP where "HP = js_mul H9 E"
  define ry where "ry = 1 - rp"
  define HY where "HY = js_sub (Fin 1) HP"
  define rs where "rs = sg * ry"
  define HS where "HS = js_mul SG HY"
  define rz where "rz = 1 + rs"
  define HZ where "HZ = js_add (Fin 1) HS"
  have xb: "0 \<le> x" "x \<le> 2 ^ 1024" unfolding x_def using x0 by simp_all
  have t: "apx (4 / 2 ^ 53) 1 tr T" unfolding tr_def T_def by (rule t_error [OF xb])
  have e: "apx (7 / 2 ^ 53) 1 er E" unfolding er_def E_def by (rule exp_error [OF f xb(1)])
  have s: "apx 0 1 sg SG" unfolding sg_def SG_def apx_def by simp
  have one: "apx 0 1 1 (Fin 1)" by (rule apx_Fin) simp
  have half: "apx 0 (1 / 2) 0.5 (Fin 0.5)" by (rule apx_Fin) simp
  have a1: "apx (1 / 2 ^ 53) (3 / 10) 0.254829592 (to_double 0.254829592)"
    by (rule apx_lit [OF lit_a1]) simp_all
  have a2: "apx (1 / 2 ^ 53) (3 / 10) (- 0.284496736) (to_double (- 0.284496736))"
    by (rule apx_lit [OF lit_a2]) simp_all
  have a3: "apx (1 / 2 ^ 53) (3 / 2) 1.421413741 (to_double 1.421413741)"
    by (rule apx_lit [OF lit_a3]) simp_all
  have a4: "apx (1 / 2 ^ 53) (3 / 2) (- 1.453152027) (to_double (- 1.453152027))"
    by (rule apx_lit [OF lit_a4]) simp_all
  have a5: "apx (1 / 2 ^ 53) (11 / 10) 1.061405429 (to_double 1.061405429)"
    by (rule apx_lit [OF lit_a5]) simp_all
  have h1: "apx (8 / 2 ^ 53) (11 / 10) r1 H1"
    unfolding r1_def H1_def by (rule apx_mul [OF a5 t, where k = 1]) simp_all
  have h2: "apx (13 / 2 ^ 53) (26 / 10) r2 H2"
    unfolding r2_def H2_def by (rule apx_add [OF h1 a4, where k = 2]) simp_all
  have h3: "apx (28 / 2 ^ 53) (26 / 10) r3 H3"
    unfolding r3_def H3_def by (rule apx_mul [OF h2 t, where k = 2]) simp_all
  have h4: "apx (37 / 2 ^ 53) (41 / 10) r4 H4"
    unfolding r4_def H4_def by (rule apx_add [OF h3 a3, where k = 3]) simp_all
  have h5: "apx (62 / 2 ^ 53) (41 / 10) r5 H5"
    unfolding r5_def H5_def by (rule apx_mul [OF h4 t, where k = 3]) simp_all
  have h6: "apx (71 / 2 ^ 53) (44 / 10) r6 H6"
    unfolding r6_def H6_def by (rule apx_add [OF h5 a2, where k = 3]) simp_all
  have h7: "apx (97 / 2 ^ 53) (44 / 10) r7 H7"
    unfolding r7_def H7_def by (rule apx_mul [OF h6 t, where k = 3]) simp_all
  have h8: "apx (106 / 2 ^ 53) (47 / 10) r8 H8"
    unfolding r8_def H8_def by (rule apx_add [OF h7 a1, where k = 3]) simp_all
  have h9: "apx (133 / 2 ^ 53) (47 / 10) r9 H9"
    unfolding r9_def H9_def by (rule apx_mul [OF h8 t, where k = 3]) simp_all
  have hp: "apx (174 / 2 ^ 53) (47 / 10) rp HP"
    unfolding rp_def HP_def by (rule apx_mul [OF h9 e, where k = 3]) simp_all
  have hy: "apx (182 / 2 ^ 53) (57 / 10) ry HY"
    unfolding ry_def HY_def by (rule apx_sub [OF one hp, where k = 3]) simp_all
  have hs: "apx (190 / 2 ^ 53) (57 / 10) rs HS"
    unfolding rs_def HS_def by (rule apx_mul [OF s hy, where k = 3]) simp_all
  have hz: "apx (198 / 2 ^ 53) (67 / 10) rz HZ"
    unfolding rz_def HZ_def by (rule apx_add [OF one hs, where k = 3]) simp_all
  have hr: "apx (103 / 2 ^ 53) 4 (0.5 * rz) (js_mul (Fin 0.5) HZ)"
    by (rule apx_mul [OF half hz, where k = 2]) simp_all
  have c: "cdf x0 = 0.5 * rz"
    unfolding cdf_as_y as_y_def as_poly_def rz_def rs_def ry_def rp_def r9_def r8_def r7_def
      r6_def r5_def r4_def r3_def r2_def r1_def er_def tr_def sg_def x_def
    by simp
  have j: "js_cdf lib (Fin x0) = js_mul (Fin 0.5) HZ"
    unfolding js_cdf_def Let_def HZ_def HS_def HY_def HP_def H9_def H8_def H7_def H6_def H5_def
      H4_def H3_def H2_def H1_def E_def T_def SG_def x_def
    by simp
  show ?thesis unfolding c j by (rule hr)
qed

text \<open>
  C8, amended. On doubles \<^verbatim>\<open>cdf\<close> is non-decreasing up to rounding: for finite doubles
  \<open>x1 \<le> x2\<close> (magnitude at most \<open>2 ^ 1024\<close>) and every faithful \<^verbatim>\<open>Math.exp\<close>, both results
  are finite and \<^verbatim>\<open>cdf(x1)\<close> is at most \<^verbatim>\<open>cdf(x2)\<close> plus \<open>1e-13\<close>. In exact arithmetic
  \<open>cdf\<close> is non-decreasing (lemma \<open>cdf_real_mono\<close>), and each rounded result is within
  \<open>103 * 2 ^ (- 53)\<close> of the exact one.
\<close>

theorem cdf_mono_tolerance:
  assumes "faithful_lib lib" "x1 \<le> x2" "\<bar>x1\<bar> \<le> 2 ^ 1024" "\<bar>x2\<bar> \<le> 2 ^ 1024"
  shows "\<exists>c1 c2. js_cdf lib (Fin x1) = Fin c1 \<and> js_cdf lib (Fin x2) = Fin c2 \<and>
           c1 \<le> c2 + 1 / 10 ^ 13"
proof -
  obtain c1 where c1: "js_cdf lib (Fin x1) = Fin c1" "\<bar>c1 - cdf x1\<bar> \<le> 103 / 2 ^ 53"
    using js_cdf_error [OF assms(1,3)] unfolding apx_def by blast
  obtain c2 where c2: "js_cdf lib (Fin x2) = Fin c2" "\<bar>c2 - cdf x2\<bar> \<le> 103 / 2 ^ 53"
    using js_cdf_error [OF assms(1,4)] unfolding apx_def by blast
  have m: "cdf x1 \<le> cdf x2" by (rule cdf_real_mono [OF assms(2)])
  have "(103::real) / 2 ^ 53 + 103 / 2 ^ 53 \<le> 1 / 10 ^ 13" by simp
  then have "c1 \<le> c2 + 1 / 10 ^ 13" using c1(2) c2(2) m by linarith
  then show ?thesis using c1(1) c2(1) by blast
qed

theorem cdf_mono_tolerance_witness:
  "faithful_lib nearest_lib \<and> (- 1 :: real) \<le> 2 \<and> \<bar>- 1 :: real\<bar> \<le> 2 ^ 1024 \<and>
   \<bar>2 :: real\<bar> \<le> 2 ^ 1024 \<and>
   (\<exists>c1 c2. js_cdf nearest_lib (Fin (- 1)) = Fin c1 \<and> js_cdf nearest_lib (Fin 2) = Fin c2 \<and>
      c1 \<le> c2 + 1 / 10 ^ 13)"
proof -
  have h: "(- 1 :: real) \<le> 2" "\<bar>- 1 :: real\<bar> \<le> 2 ^ 1024" "\<bar>2 :: real\<bar> \<le> 2 ^ 1024"
    by simp_all
  note f = cdf_mono_tolerance [OF faithful_nearest_lib h]
  from f h faithful_nearest_lib show ?thesis by blast
qed

end
